theory Spec2Isabelle
  imports Complex_Main "HOL-Library.Multiset"
begin

section \<open>JavaScript strings\<close>

text \<open>
  A JavaScript string is a sequence of UTF-16 code units. The model uses \<^typ>\<open>string\<close>
  (a list of 8-bit characters), read as the code units \<open>0x00\<close> to \<open>0xFF\<close>: the Latin-1
  part of the Basic Multilingual Plane. \<open>length\<close> is then JavaScript's \<open>.length\<close>.
\<close>

definition isSpace :: "char \<Rightarrow> bool" where
  \<comment> \<open>the class \<open>\s\<close> of a regular expression, on Latin-1: TAB, LF, VT, FF, CR, SP, NBSP\<close>
  "isSpace c \<longleftrightarrow> c = CHR 0x09 \<or> c = CHR 0x0A \<or> c = CHR 0x0B \<or> c = CHR 0x0C \<or>
     c = CHR 0x0D \<or> c = CHR 0x20 \<or> c = CHR 0xA0"

definition isLineTerminator :: "char \<Rightarrow> bool" where
  \<comment> \<open>what \<open>.\<close> does not match and where \<open>$\<close> matches under the flag \<open>m\<close>: LF, CR\<close>
  "isLineTerminator c \<longleftrightarrow> c = CHR 0x0A \<or> c = CHR 0x0D"

definition upperCaseLetters :: string where
  \<comment> \<open>\<open>A\<close>-\<open>Z\<close> and the Latin-1 capitals \<open>0xC0\<close>-\<open>0xDE\<close> (without the sign \<open>0xD7\<close>)\<close>
  "upperCaseLetters = ''ABCDEFGHIJKLMNOPQRSTUVWXYZ'' @
     [CHR 0xC0, CHR 0xC1, CHR 0xC2, CHR 0xC3, CHR 0xC4, CHR 0xC5, CHR 0xC6, CHR 0xC7,
      CHR 0xC8, CHR 0xC9, CHR 0xCA, CHR 0xCB, CHR 0xCC, CHR 0xCD, CHR 0xCE, CHR 0xCF,
      CHR 0xD0, CHR 0xD1, CHR 0xD2, CHR 0xD3, CHR 0xD4, CHR 0xD5, CHR 0xD6, CHR 0xD8,
      CHR 0xD9, CHR 0xDA, CHR 0xDB, CHR 0xDC, CHR 0xDD, CHR 0xDE]"

definition lowerCaseLetters :: string where
  \<comment> \<open>the same letters in lower case, each 32 code units above its capital\<close>
  "lowerCaseLetters = ''abcdefghijklmnopqrstuvwxyz'' @
     [CHR 0xE0, CHR 0xE1, CHR 0xE2, CHR 0xE3, CHR 0xE4, CHR 0xE5, CHR 0xE6, CHR 0xE7,
      CHR 0xE8, CHR 0xE9, CHR 0xEA, CHR 0xEB, CHR 0xEC, CHR 0xED, CHR 0xEE, CHR 0xEF,
      CHR 0xF0, CHR 0xF1, CHR 0xF2, CHR 0xF3, CHR 0xF4, CHR 0xF5, CHR 0xF6, CHR 0xF8,
      CHR 0xF9, CHR 0xFA, CHR 0xFB, CHR 0xFC, CHR 0xFD, CHR 0xFE]"

definition lowerChar :: "char \<Rightarrow> char" where
  "lowerChar c = (case map_of (zip upperCaseLetters lowerCaseLetters) c of Some l \<Rightarrow> l | None \<Rightarrow> c)"

definition toLowerCase :: "string \<Rightarrow> string" where
  "toLowerCase s = map lowerChar s"

fun startsWith :: "string \<Rightarrow> string \<Rightarrow> bool" where
  "startsWith s [] = True"
| "startsWith [] (p # ps) = False"
| "startsWith (c # cs) (p # ps) = (c = p \<and> startsWith cs ps)"

fun includes_str :: "string \<Rightarrow> string \<Rightarrow> bool" where
  \<comment> \<open>\<open>s.includes(t)\<close>: \<open>t\<close> occurs in \<open>s\<close> as a contiguous substring\<close>
  "includes_str [] t = (t = [])"
| "includes_str (c # cs) t = (startsWith (c # cs) t \<or> includes_str cs t)"

fun splitSpaces :: "bool \<Rightarrow> string \<Rightarrow> string \<Rightarrow> string list" where
  \<comment> \<open>\<open>s.split(/\s+/)\<close>. The flag says that the last character read was a separator,
      the second argument is the piece being read, reversed. A separator at either end
      leaves an empty piece there, and \<open>"".split\<close> is \<open>[""]\<close>.\<close>
  "splitSpaces b cur [] = [rev cur]"
| "splitSpaces b cur (c # cs) =
     (if isSpace c then (if b then splitSpaces True cur cs else rev cur # splitSpaces True [] cs)
      else splitSpaces False (c # cur) cs)"

section \<open>Regular expressions built from a query term\<close>

text \<open>
  \<open>search\<close> compiles each query term with \<open>new RegExp(term, 'g')\<close> and counts the matches
  of \<open>content.match\<close>. The constructor is part of the language, not of the repository. It
  is modelled exactly on the patterns made of pattern characters, \<open>.\<close>, \<open>(\<close> and \<open>)\<close>:
  such a pattern is valid when its parentheses are balanced, a group is then only a
  bracketing of a sequence, \<open>.\<close> matches one code unit that is no line terminator, and every
  other character matches itself. All other patterns (those with one of
  \<open>^ $ \ * + ? [ ] { } |\<close>) are left to the parameter \<open>ext\<close>, which gives for a pattern
  either \<open>None\<close> (the constructor throws a SyntaxError) or the function counting the
  matches in a subject.
\<close>

type_synonym regexp_engine = "string \<Rightarrow> (string \<Rightarrow> nat) option"

definition isSyntaxCharacter :: "char \<Rightarrow> bool" where
  "isSyntaxCharacter c \<longleftrightarrow> c \<in> set [CHR ''^'', CHR ''$'', CHR 0x5C, CHR ''.'', CHR ''*'', CHR ''+'',
     CHR ''?'', CHR ''('', CHR '')'', CHR ''['', CHR '']'', CHR ''{'', CHR ''}'', CHR ''|'']"

definition inFragment :: "string \<Rightarrow> bool" where
  "inFragment p \<longleftrightarrow> (\<forall>c \<in> set p. \<not> isSyntaxCharacter c \<or> c = CHR ''.'' \<or> c = CHR ''('' \<or> c = CHR '')'')"

fun balanced :: "nat \<Rightarrow> string \<Rightarrow> bool" where
  \<comment> \<open>the first argument counts the groups that are open\<close>
  "balanced n [] = (n = 0)"
| "balanced n (c # cs) =
     (if c = CHR ''('' then balanced (Suc n) cs
      else if c = CHR '')'' then (case n of 0 \<Rightarrow> False | Suc k \<Rightarrow> balanced k cs)
      else balanced n cs)"

datatype atom = Lit char | AnyChar

definition atomsOf :: "string \<Rightarrow> atom list" where
  "atomsOf p = map (\<lambda>c. if c = CHR ''.'' then AnyChar else Lit c)
                   (filter (\<lambda>c. c \<noteq> CHR ''('' \<and> c \<noteq> CHR '')'') p)"

fun atomMatches :: "atom \<Rightarrow> char \<Rightarrow> bool" where
  "atomMatches (Lit a) c = (a = c)"
| "atomMatches AnyChar c = (\<not> isLineTerminator c)"

fun matchesAt :: "atom list \<Rightarrow> string \<Rightarrow> bool" where
  "matchesAt [] s = True"
| "matchesAt (a # as) [] = False"
| "matchesAt (a # as) (c # cs) = (atomMatches a c \<and> matchesAt as cs)"

fun scanMatches :: "atom list \<Rightarrow> nat \<Rightarrow> string \<Rightarrow> nat" where
  \<comment> \<open>the matches of a global search: leftmost first, the next search starting where the
      last match ended. The second argument counts the characters of the last match
      still to be passed over.\<close>
  "scanMatches as k [] = 0"
| "scanMatches as (Suc k) (c # cs) = scanMatches as k cs"
| "scanMatches as 0 (c # cs) =
     (if matchesAt as (c # cs) then Suc (scanMatches as (length as - 1) cs)
      else scanMatches as 0 cs)"

definition countMatches :: "atom list \<Rightarrow> string \<Rightarrow> nat" where
  \<comment> \<open>an empty pattern matches the empty string at every index, the end included\<close>
  "countMatches as s = (if as = [] then Suc (length s) else scanMatches as 0 s)"

definition newRegExp :: "regexp_engine \<Rightarrow> string \<Rightarrow> (string \<Rightarrow> nat) option" where
  "newRegExp ext p =
     (if inFragment p then (if balanced 0 p then Some (countMatches (atomsOf p)) else None)
      else ext p)"

section \<open>The index and the search\<close>

datatype error = SyntaxError | FsError | LoadError

record IndexedDocument =
  path :: string
  content :: string
  language :: string
  lastModified :: int
  tokens :: int
  symbols :: "string list option"
  imports' :: "string list option"
  exports :: "string list option"
  comments :: "string list option"
  fileType :: "string option"

record SearchResult =
  document :: IndexedDocument
  relevanceScore :: rat

text \<open>
  \<open>indexedDocuments\<close> is a \<open>Map\<close> from paths to documents. A \<open>Map\<close> iterates in the order
  in which its keys were first set, so it is an association list: \<open>get\<close> reads the first
  entry of a key, \<open>set\<close> replaces it in place or appends a new one.
  Scores are JavaScript numbers; the model computes them in the rationals.
\<close>

type_synonym store = "(string \<times> IndexedDocument) list"

definition mapValues :: "store \<Rightarrow> IndexedDocument list" where
  "mapValues m = map snd m"

definition mapGet :: "store \<Rightarrow> string \<Rightarrow> IndexedDocument option" where
  "mapGet m k = map_of m k"

fun mapSet :: "store \<Rightarrow> string \<Rightarrow> IndexedDocument \<Rightarrow> store" where
  "mapSet [] k v = [(k, v)]"
| "mapSet ((k', v') # m) k v = (if k' = k then (k, v) # m else (k', v') # mapSet m k v)"

record LocalRagService =
  indexedDocuments :: store
  isIndexing :: bool
  kodelyIgnoreController :: "(string \<Rightarrow> bool) option"

definition queryTerms :: "string \<Rightarrow> string list" where
  "queryTerms query = filter (\<lambda>term. length term > 2) (splitSpaces False [] (toLowerCase query))"

fun contentScore :: "regexp_engine \<Rightarrow> string \<Rightarrow> string list \<Rightarrow> error + rat" where
  "contentScore ext c [] = Inr 0"
| "contentScore ext c (term # terms) =
     (case newRegExp ext term of
        None \<Rightarrow> Inl SyntaxError
      | Some matches \<Rightarrow>
          (case contentScore ext c terms of
             Inl e \<Rightarrow> Inl e
           | Inr score \<Rightarrow> Inr (of_nat (matches c) + score)))"

definition metadataBoost :: "rat \<Rightarrow> string list \<Rightarrow> string list option \<Rightarrow> rat" where
  \<comment> \<open>the two nested loops over the terms and one metadata list; a missing list adds nothing\<close>
  "metadataBoost w terms field =
     (case field of
        None \<Rightarrow> 0
      | Some xs \<Rightarrow> (\<Sum>term \<leftarrow> terms. \<Sum>x \<leftarrow> xs. if includes_str (toLowerCase x) term then w else 0))"

definition fileTypeMatches :: "string list \<Rightarrow> string option \<Rightarrow> bool" where
  "fileTypeMatches terms ft =
     (case ft of
        None \<Rightarrow> False
      | Some t \<Rightarrow> t \<noteq> [] \<and>
          list_ex (\<lambda>term. includes_str (toLowerCase t) term \<or>
                          (term = ''test'' \<and> includes_str t ''-test'') \<or>
                          (term = ''react'' \<and> includes_str t ''-react'')) terms)"

definition rawScore :: "regexp_engine \<Rightarrow> string list \<Rightarrow> IndexedDocument \<Rightarrow> error + rat" where
  "rawScore ext terms doc =
     (case contentScore ext (toLowerCase (content doc)) terms of
        Inl e \<Rightarrow> Inl e
      | Inr base \<Rightarrow>
          Inr (base + metadataBoost 5 terms (symbols doc) + metadataBoost 2 terms (imports' doc)
               + metadataBoost 3 terms (exports doc) + metadataBoost (3 / 2) terms (comments doc)
               + (if fileTypeMatches terms (fileType doc) then 4 else 0)))"

definition scoreDocument :: "regexp_engine \<Rightarrow> string list \<Rightarrow> IndexedDocument \<Rightarrow> error + rat" where
  \<comment> \<open>\<open>score / (doc.tokens || 1)\<close>\<close>
  "scoreDocument ext terms doc =
     (case rawScore ext terms doc of
        Inl e \<Rightarrow> Inl e
      | Inr score \<Rightarrow> Inr (score / of_int (if tokens doc = 0 then 1 else tokens doc)))"

fun scoreAll :: "regexp_engine \<Rightarrow> string list \<Rightarrow> IndexedDocument list \<Rightarrow> error + SearchResult list" where
  \<comment> \<open>the loop over the documents: a document is pushed when its score is positive\<close>
  "scoreAll ext terms [] = Inr []"
| "scoreAll ext terms (doc # docs) =
     (case scoreDocument ext terms doc of
        Inl e \<Rightarrow> Inl e
      | Inr score \<Rightarrow>
          (case scoreAll ext terms docs of
             Inl e \<Rightarrow> Inl e
           | Inr results \<Rightarrow>
               Inr (if score > 0 then \<lparr>document = doc, relevanceScore = score\<rparr> # results
                    else results)))"

definition sortByRelevance :: "SearchResult list \<Rightarrow> SearchResult list" where
  \<comment> \<open>\<open>results.sort((a, b) => b.relevanceScore - a.relevanceScore)\<close>; the sort is stable\<close>
  "sortByRelevance results = sort_key (\<lambda>r. - relevanceScore r) results"

definition slice0 :: "'a list \<Rightarrow> int \<Rightarrow> 'a list" where
  \<comment> \<open>\<open>xs.slice(0, e)\<close>: a negative end counts from the end of the list\<close>
  "slice0 xs e = (if e < 0 then take (nat (int (length xs) + e)) xs else take (nat e) xs)"

fun respectTokenLimit :: "int \<Rightarrow> SearchResult list \<times> int \<Rightarrow> SearchResult list \<Rightarrow> SearchResult list" where
  \<comment> \<open>the last loop; the state is \<open>(filteredResults, totalTokens)\<close>\<close>
  "respectTokenLimit maxTokens (filteredResults, totalTokens) [] = filteredResults"
| "respectTokenLimit maxTokens (filteredResults, totalTokens) (result # rest) =
     (if totalTokens + tokens (document result) \<le> maxTokens
      then respectTokenLimit maxTokens
             (filteredResults @ [result], totalTokens + tokens (document result)) rest
      else respectTokenLimit maxTokens (filteredResults, totalTokens) rest)"

definition search :: "regexp_engine \<Rightarrow> LocalRagService \<Rightarrow> string \<Rightarrow> int \<Rightarrow> int \<Rightarrow> error + SearchResult list" where
  "search ext this query maxResults maxTokens =
     (case scoreAll ext (queryTerms query) (mapValues (indexedDocuments this)) of
        Inl e \<Rightarrow> Inl e
      | Inr results \<Rightarrow>
          Inr (respectTokenLimit maxTokens ([], 0) (slice0 (sortByRelevance results) maxResults)))"


section \<open>An invocation of search, on any engine\<close>

text \<open>
  \<open>results.sort(compare)\<close> is the one step of \<open>search\<close> whose algorithm the language leaves
  to the engine. The language fixes what the array may hold afterwards; \<open>sortPermitted\<close>
  says it for the comparator of \<open>search\<close>, \<open>(a, b) => b.relevanceScore - a.relevanceScore\<close>:
  the elements are the same, the comparator is not positive on an element and a later
  one, and elements on which it is zero keep their order (the sort is stable).
\<close>

definition sortPermitted :: "SearchResult list \<Rightarrow> SearchResult list \<Rightarrow> bool" where
  "sortPermitted before after \<longleftrightarrow>
     mset after = mset before \<and>
     sorted_wrt (\<lambda>a b. relevanceScore b - relevanceScore a \<le> 0) after \<and>
     (\<forall>k \<in> set after. filter (\<lambda>r. relevanceScore r = relevanceScore k) after =
                        filter (\<lambda>r. relevanceScore r = relevanceScore k) before)"

definition searchWith :: "(SearchResult list \<Rightarrow> SearchResult list) \<Rightarrow> regexp_engine \<Rightarrow> LocalRagService \<Rightarrow>
    string \<Rightarrow> int \<Rightarrow> int \<Rightarrow> (error + SearchResult list) \<times> LocalRagService" where
  \<comment> \<open>One invocation of \<open>search\<close> on an engine whose sort is \<open>sortImpl\<close>: its outcome and the
      service after it. The method assigns to no field of the service and to no document;
      the arrays that it pushes to and sorts are its own.\<close>
  "searchWith sortImpl ext this query maxResults maxTokens =
     ((case scoreAll ext (queryTerms query) (mapValues (indexedDocuments this)) of
         Inl e \<Rightarrow> Inl e
       | Inr results \<Rightarrow>
           Inr (respectTokenLimit maxTokens ([], 0) (slice0 (sortImpl results) maxResults))),
      this)"

fun insertByScore :: "SearchResult \<Rightarrow> SearchResult list \<Rightarrow> SearchResult list" where
  \<comment> \<open>into a list in descending order, behind the results that score as much\<close>
  "insertByScore x [] = [x]"
| "insertByScore x (y # ys) =
     (if relevanceScore y < relevanceScore x then x # y # ys else y # insertByScore x ys)"

definition insertionSort :: "SearchResult list \<Rightarrow> SearchResult list" where
  \<comment> \<open>a sorting algorithm other than the one of \<open>sortByRelevance\<close>: insertion from the left\<close>
  "insertionSort results = foldl (\<lambda>done x. insertByScore x done) [] results"

definition reversedTiesSort :: "SearchResult list \<Rightarrow> SearchResult list" where
  \<comment> \<open>a sort that orders by score and reverses the results that score the same: not stable\<close>
  "reversedTiesSort results = rev (sort_key relevanceScore results)"

section \<open>Regular expression literals\<close>

text \<open>
  The extractors match the content against regular expression literals. A literal is
  written here as a term of \<open>rx\<close>, and matched the way the language matches it, by
  backtracking: \<open>ends r s\<close> lists what can be left of \<open>s\<close> after a match of \<open>r\<close> at its
  start, in the order in which backtracking tries the alternatives, so that the head of
  the list is the match that is found.
\<close>

datatype rx =
    Chr char              \<comment> \<open>a pattern character\<close>
  | Cls "char \<Rightarrow> bool"     \<comment> \<open>a character class, \<open>.\<close> included\<close>
  | Eps                   \<comment> \<open>the empty pattern\<close>
  | Seq rx rx
  | Alt rx rx             \<comment> \<open>\<open>r|s\<close>\<close>
  | Star rx               \<comment> \<open>\<open>r*\<close>, greedy\<close>
  | Lazy rx               \<comment> \<open>\<open>r*?\<close>\<close>
  | Eol                   \<comment> \<open>\<open>$\<close> under the flag \<open>m\<close>\<close>

fun starEnds :: "(string \<Rightarrow> string list) \<Rightarrow> nat \<Rightarrow> string \<Rightarrow> string list" where
  \<comment> \<open>one more iteration first, then none; an iteration that consumes nothing fails.
      The second argument bounds the number of iterations by the length of the subject.\<close>
  "starEnds f 0 s = [s]"
| "starEnds f (Suc n) s =
     concat (map (starEnds f n) (filter (\<lambda>t. length t < length s) (f s))) @ [s]"

fun lazyEnds :: "(string \<Rightarrow> string list) \<Rightarrow> nat \<Rightarrow> string \<Rightarrow> string list" where
  \<comment> \<open>no iteration first, then one more\<close>
  "lazyEnds f 0 s = [s]"
| "lazyEnds f (Suc n) s =
     s # concat (map (lazyEnds f n) (filter (\<lambda>t. length t < length s) (f s)))"

primrec ends :: "rx \<Rightarrow> string \<Rightarrow> string list" where
  "ends (Chr a) s = (case s of [] \<Rightarrow> [] | c # cs \<Rightarrow> if c = a then [cs] else [])"
| "ends (Cls p) s = (case s of [] \<Rightarrow> [] | c # cs \<Rightarrow> if p c then [cs] else [])"
| "ends Eps s = [s]"
| "ends (Seq r1 r2) s = concat (map (ends r2) (ends r1 s))"
| "ends (Alt r1 r2) s = ends r1 s @ ends r2 s"
| "ends (Star r) s = starEnds (ends r) (length s) s"
| "ends (Lazy r) s = lazyEnds (ends r) (length s) s"
| "ends Eol s = (case s of [] \<Rightarrow> [s] | c # cs \<Rightarrow> if isLineTerminator c then [s] else [])"

definition seqs :: "rx list \<Rightarrow> rx" where
  "seqs rs = foldr Seq rs Eps"

definition Str :: "string \<Rightarrow> rx" where
  "Str s = seqs (map Chr s)"

definition Plus :: "rx \<Rightarrow> rx" where
  \<comment> \<open>\<open>r+\<close>\<close>
  "Plus r = Seq r (Star r)"

definition Opt :: "rx \<Rightarrow> rx" where
  \<comment> \<open>\<open>r?\<close>\<close>
  "Opt r = Alt r Eps"

fun matchAll :: "rx \<Rightarrow> nat \<Rightarrow> string \<Rightarrow> string list" where
  \<comment> \<open>\<open>s.match(r) || []\<close> for \<open>r\<close> with the flag \<open>g\<close>: the matched substrings, leftmost first,
      each search starting where the last match ended (one further on after an empty
      match). The second argument counts the characters of the last match still to be
      passed over.\<close>
  "matchAll r k [] = (if k = 0 \<and> ends r [] \<noteq> [] then [[]] else [])"
| "matchAll r (Suc k) (c # cs) = matchAll r k cs"
| "matchAll r 0 (c # cs) =
     (case ends r (c # cs) of
        [] \<Rightarrow> matchAll r 0 cs
      | t # _ \<Rightarrow> take (Suc (length cs) - length t) (c # cs) # matchAll r (length cs - length t) cs)"

fun searchFirst :: "rx \<Rightarrow> string \<Rightarrow> (string \<times> string) option" where
  \<comment> \<open>the leftmost match: what stands before it and what is left after it\<close>
  "searchFirst r [] = (case ends r [] of [] \<Rightarrow> None | t # _ \<Rightarrow> Some ([], t))"
| "searchFirst r (c # cs) =
     (case ends r (c # cs) of
        t # _ \<Rightarrow> Some ([], t)
      | [] \<Rightarrow> (case searchFirst r cs of None \<Rightarrow> None | Some (before, after) \<Rightarrow> Some (c # before, after)))"

definition replaceFirst :: "rx \<Rightarrow> string \<Rightarrow> string" where
  \<comment> \<open>\<open>s.replace(r, '')\<close> for \<open>r\<close> without the flag \<open>g\<close>\<close>
  "replaceFirst r s = (case searchFirst r s of None \<Rightarrow> s | Some (before, after) \<Rightarrow> before @ after)"

definition groupAt :: "rx \<Rightarrow> rx \<Rightarrow> rx \<Rightarrow> string \<Rightarrow> string list" where
  \<comment> \<open>the texts of the group of \<open>a(g)b\<close> for the matches at the start of the subject, in
      the order of backtracking\<close>
  "groupAt a g b s =
     concat (map (\<lambda>s1. concat (map (\<lambda>s2. map (\<lambda>s3. take (length s1 - length s2) s1) (ends b s2))
                                       (ends g s1)))
                 (ends a s))"

fun searchGroup :: "rx \<Rightarrow> rx \<Rightarrow> rx \<Rightarrow> string \<Rightarrow> string option" where
  \<comment> \<open>\<open>s.match(/a(g)b/)\<close> and then \<open>[1]\<close>: the group of the leftmost match\<close>
  "searchGroup a g b [] = (case groupAt a g b [] of [] \<Rightarrow> None | x # _ \<Rightarrow> Some x)"
| "searchGroup a g b (c # cs) =
     (case groupAt a g b (c # cs) of x # _ \<Rightarrow> Some x | [] \<Rightarrow> searchGroup a g b cs)"

definition trim :: "string \<Rightarrow> string" where
  "trim s = rev (dropWhile isSpace (rev (dropWhile isSpace s)))"

definition endsWith :: "string \<Rightarrow> string \<Rightarrow> bool" where
  "endsWith s t = startsWith (rev s) (rev t)"

definition newSet :: "string list \<Rightarrow> string list" where
  \<comment> \<open>\<open>[...new Set(xs)]\<close>: a value is kept where it comes first\<close>
  "newSet xs = foldl (\<lambda>seen x. if x \<in> set seen then seen else seen @ [x]) [] xs"

definition isWordChar :: "char \<Rightarrow> bool" where
  \<comment> \<open>\<open>[a-zA-Z0-9_]\<close>\<close>
  "isWordChar c \<longleftrightarrow> c \<in> set (''abcdefghijklmnopqrstuvwxyz'' @ ''ABCDEFGHIJKLMNOPQRSTUVWXYZ'' @ ''0123456789_'')"

definition isIdentChar :: "char \<Rightarrow> bool" where
  \<comment> \<open>\<open>[a-zA-Z0-9_$]\<close>\<close>
  "isIdentChar c \<longleftrightarrow> isWordChar c \<or> c = CHR ''$''"

definition isModuleChar :: "char \<Rightarrow> bool" where
  \<comment> \<open>\<open>[a-zA-Z0-9_.]\<close>\<close>
  "isModuleChar c \<longleftrightarrow> isWordChar c \<or> c = CHR ''.''"

definition isQuote :: "char \<Rightarrow> bool" where
  \<comment> \<open>\<open>['"]\<close>\<close>
  "isQuote c \<longleftrightarrow> c = CHR 0x27 \<or> c = CHR 0x22"

definition spaces :: rx where
  \<comment> \<open>\<open>\s+\<close>\<close>
  "spaces = Plus (Cls isSpace)"

definition optSpaces :: rx where
  \<comment> \<open>\<open>\s*\<close>\<close>
  "optSpaces = Star (Cls isSpace)"

definition restOfLine :: rx where
  \<comment> \<open>\<open>.*\<close>\<close>
  "restOfLine = Star (Cls (\<lambda>c. \<not> isLineTerminator c))"

definition pushNames :: "(string \<Rightarrow> string) \<Rightarrow> string list \<Rightarrow> string list" where
  \<comment> \<open>\<open>matches.forEach(match => { const name = f(match); if (name) list.push(name) })\<close>\<close>
  "pushNames f matches = filter (\<lambda>name. name \<noteq> []) (map f matches)"

definition extractComments :: "string \<Rightarrow> string \<Rightarrow> string list" where
  "extractComments cont lang =
     (let singleLineComments = matchAll (seqs [Str ''//'', restOfLine, Eol]) 0 cont;
          multiLineComments = matchAll (seqs [Str ''/*'', Lazy (Cls (\<lambda>c. True)), Str ''*/'']) 0 cont;
          hashComments = matchAll (seqs [Str ''#'', restOfLine, Eol]) 0 cont
      in pushNames (\<lambda>comment. trim (replaceFirst (seqs [Str ''//'', optSpaces]) comment)) singleLineComments
       @ pushNames (\<lambda>comment. trim (replaceFirst (seqs [optSpaces, Str ''*/''])
                                      (replaceFirst (seqs [Str ''/*'', optSpaces]) comment))) multiLineComments
       @ pushNames (\<lambda>comment. trim (replaceFirst (seqs [Str ''#'', optSpaces]) comment)) hashComments)"

definition pushGroups :: "(string \<Rightarrow> string option) \<Rightarrow> string list \<Rightarrow> string list" where
  \<comment> \<open>\<open>matches.forEach(match => { const m = f(match); if (m && m[1]) list.push(m[1]) })\<close>\<close>
  "pushGroups f matches =
     concat (map (\<lambda>match. case f match of None \<Rightarrow> [] | Some g \<Rightarrow> if g = [] then [] else [g]) matches)"

definition isJsFamily :: "string \<Rightarrow> bool" where
  "isJsFamily lang \<longleftrightarrow> lang = ''javascript'' \<or> lang = ''typescript''"

definition bindingNames :: "string \<Rightarrow> string list \<Rightarrow> string list" where
  \<comment> \<open>for \<open>const\<close>, \<open>let\<close> and \<open>var\<close>:
      \<open>match.replace(/const\s+/, '').replace(/\s*=.*/, '')\<close>\<close>
  "bindingNames keyword matches =
     pushNames (\<lambda>match. replaceFirst (seqs [optSpaces, Chr (CHR ''=''), restOfLine])
                          (replaceFirst (seqs [Str keyword, spaces]) match)) matches"

definition callableNames :: "string \<Rightarrow> string list \<Rightarrow> string list" where
  \<comment> \<open>for \<open>function\<close> and \<open>def\<close>:
      \<open>match.replace(/function\s+/, '').replace(/\s*\(.*/, '')\<close>\<close>
  "callableNames keyword matches =
     pushNames (\<lambda>match. replaceFirst (seqs [optSpaces, Chr (CHR ''(''), restOfLine])
                          (replaceFirst (seqs [Str keyword, spaces]) match)) matches"

definition classNames :: "string list \<Rightarrow> string list" where
  \<comment> \<open>\<open>match.replace(/class\s+/, '')\<close>\<close>
  "classNames matches = pushNames (\<lambda>match. replaceFirst (seqs [Str ''class'', spaces]) match) matches"

definition extractSymbols :: "string \<Rightarrow> string \<Rightarrow> string list" where
  "extractSymbols cont lang =
     newSet
      (if isJsFamily lang then
         (let functionMatches = matchAll (seqs [Str ''function'', spaces, Plus (Cls isIdentChar), optSpaces, Chr (CHR ''('')]) 0 cont;
              classMatches = matchAll (seqs [Str ''class'', spaces, Plus (Cls isIdentChar)]) 0 cont;
              constMatches = matchAll (seqs [Str ''const'', spaces, Plus (Cls isIdentChar), optSpaces, Chr (CHR ''='')]) 0 cont;
              letMatches = matchAll (seqs [Str ''let'', spaces, Plus (Cls isIdentChar), optSpaces, Chr (CHR ''='')]) 0 cont;
              varMatches = matchAll (seqs [Str ''var'', spaces, Plus (Cls isIdentChar), optSpaces, Chr (CHR ''='')]) 0 cont;
              arrowFunctionMatches = matchAll (seqs [Str ''const'', spaces, Plus (Cls isIdentChar), optSpaces,
                  Chr (CHR ''=''), optSpaces, Chr (CHR ''(''), Star (Cls (\<lambda>c. c \<noteq> CHR '')'')), Chr (CHR '')''),
                  optSpaces, Str ''=>'']) 0 cont
          in callableNames ''function'' functionMatches @ classNames classMatches
           @ bindingNames ''const'' constMatches @ bindingNames ''let'' letMatches
           @ bindingNames ''var'' varMatches @ bindingNames ''const'' arrowFunctionMatches)
       else if lang = ''python'' then
         (let functionMatches = matchAll (seqs [Str ''def'', spaces, Plus (Cls isWordChar), optSpaces, Chr (CHR ''('')]) 0 cont;
              classMatches = matchAll (seqs [Str ''class'', spaces, Plus (Cls isWordChar)]) 0 cont
          in callableNames ''def'' functionMatches @ classNames classMatches)
       else [])"

definition quoted :: "rx list" where
  \<comment> \<open>\<open>['"]([^'"]+)['"]\<close>\<close>
  "quoted = [Cls isQuote, Plus (Cls (\<lambda>c. \<not> isQuote c)), Cls isQuote]"

definition extractImports :: "string \<Rightarrow> string \<Rightarrow> string list" where
  "extractImports cont lang =
     newSet
      (if isJsFamily lang then
         (let importMatches = matchAll (seqs ([Str ''import'', spaces, Lazy (Cls (\<lambda>c. \<not> isLineTerminator c)),
                  Str ''from'', spaces] @ quoted @ [Opt (Chr (CHR '';''))])) 0 cont;
              requireMatches = matchAll (seqs ([Str ''require'', optSpaces, Chr (CHR ''('')] @ quoted @ [Chr (CHR '')'')])) 0 cont
          in pushGroups (searchGroup (seqs [Str ''from'', spaces, Cls isQuote]) (Plus (Cls (\<lambda>c. \<not> isQuote c)))
                           (seqs [Cls isQuote, Opt (Chr (CHR '';''))])) importMatches
           @ pushGroups (searchGroup (seqs [Str ''require'', optSpaces, Chr (CHR ''(''), Cls isQuote])
                           (Plus (Cls (\<lambda>c. \<not> isQuote c))) (seqs [Cls isQuote, Chr (CHR '')'')])) requireMatches)
       else if lang = ''python'' then
         (let importMatches = matchAll (seqs [Str ''import'', spaces, Plus (Cls isModuleChar)]) 0 cont;
              fromImportMatches = matchAll (seqs [Str ''from'', spaces, Plus (Cls isModuleChar), spaces, Str ''import'']) 0 cont
          in pushNames (\<lambda>match. replaceFirst (seqs [Str ''import'', spaces]) match) importMatches
           @ pushNames (\<lambda>match. replaceFirst (seqs [spaces, Str ''import'', restOfLine])
                                  (replaceFirst (seqs [Str ''from'', spaces]) match)) fromImportMatches)
       else [])"

definition extractExports :: "string \<Rightarrow> string \<Rightarrow> string list" where
  "extractExports cont lang =
     newSet
      (if isJsFamily lang then
         (let namedExportMatches = matchAll (seqs [Str ''export'', spaces,
                  Alt (Str ''const'') (Alt (Str ''let'') (Alt (Str ''var'') (Alt (Str ''function'') (Str ''class'')))),
                  spaces, Plus (Cls isIdentChar)]) 0 cont;
              defaultExportMatches = matchAll (seqs [Str ''export'', spaces, Str ''default'', spaces,
                  Opt (Alt (Str ''class'') (Str ''function'')), optSpaces, Plus (Cls isIdentChar)]) 0 cont
          in concat (map (\<lambda>match. let parts = splitSpaces False [] match
                                   in if length parts \<ge> 3 then [parts ! 2] else []) namedExportMatches)
           @ concat (map (\<lambda>match. let parts = splitSpaces False [] match
                                   in if length parts \<ge> 3 then [''default: '' @ parts ! (length parts - 1)] else [])
                         defaultExportMatches))
       else [])"

section \<open>The platform\<close>

text \<open>
  What the service calls outside the repository: Node's \<open>path\<close>, \<open>glob\<close>, \<open>fs\<close> and \<open>JSON\<close>.
  One value of \<open>Platform\<close> is one state of the workspace's files: the same value twice
  means that nothing changed in between. The index file is kept apart from the
  workspace (it lies in the extension's global storage): its content is the component
  \<open>indexFile\<close> of the state, \<open>None\<close> when the file does not exist.
\<close>

record Stats =
  size' :: int
  mtime :: int

record Platform =
  path_join :: "string \<Rightarrow> string \<Rightarrow> string"
  path_basename :: "string \<Rightarrow> string"
  path_extname :: "string \<Rightarrow> string"
  glob :: "string \<Rightarrow> error + string list"
  fs_stat :: "string \<Rightarrow> error + Stats"
  fs_readFile :: "string \<Rightarrow> error + string"
  index_readable :: bool
  index_writable :: bool
  JSON_stringify :: "store \<Rightarrow> string"
  JSON_parse :: "string \<Rightarrow> error + store"

record State =
  service :: LocalRagService
  indexFile :: "string option"

definition languageMap :: "(string \<times> string) list" where
  "languageMap =
     [(''.js'', ''javascript''), (''.ts'', ''typescript''), (''.jsx'', ''javascript''),
      (''.tsx'', ''typescript''), (''.py'', ''python''), (''.java'', ''java''), (''.c'', ''c''),
      (''.cpp'', ''cpp''), (''.cs'', ''csharp''), (''.go'', ''go''), (''.rb'', ''ruby''),
      (''.php'', ''php''), (''.html'', ''html''), (''.css'', ''css''), (''.json'', ''json''),
      (''.md'', ''markdown''), (''.yml'', ''yaml''), (''.yaml'', ''yaml''), (''.sh'', ''bash''),
      (''.bat'', ''batch''), (''.ps1'', ''powershell''), (''.sql'', ''sql''), (''.rs'', ''rust''),
      (''.swift'', ''swift''), (''.kt'', ''kotlin''), (''.scala'', ''scala''), (''.dart'', ''dart''),
      (''.lua'', ''lua''), (''.r'', ''r'')]"

definition getLanguageFromPath :: "Platform \<Rightarrow> string \<Rightarrow> string" where
  "getLanguageFromPath P filePath =
     (case map_of languageMap (toLowerCase (path_extname P filePath)) of
        Some l \<Rightarrow> l
      | None \<Rightarrow> ''plaintext'')"

definition estimateTokenCount :: "string \<Rightarrow> int" where
  \<comment> \<open>\<open>Math.ceil(text.length / 4)\<close>\<close>
  "estimateTokenCount t = \<lceil>real (length t) / 4\<rceil>"

definition detectFileType :: "Platform \<Rightarrow> string \<Rightarrow> string \<Rightarrow> string \<Rightarrow> string" where
  "detectFileType P filePath cont lang =
     (let fileName = toLowerCase (path_basename P filePath)
      in if includes_str fileName ''.test.'' \<or> includes_str fileName ''.spec.'' \<or>
            startsWith fileName ''test_'' \<or> includes_str cont ''@test'' \<or>
            (includes_str cont ''describe('' \<and> includes_str cont ''it('') then lang @ ''-test''
         else if isJsFamily lang \<and>
            (includes_str cont ''import React'' \<or> includes_str cont (''from '' @ [CHR 0x22] @ ''react'' @ [CHR 0x22]) \<or>
             includes_str cont ''extends Component'' \<or> includes_str cont ''React.Component'' \<or>
             includes_str cont ''useState('' \<or> includes_str cont ''useEffect('') then lang @ ''-react''
         else if fileName = ''package.json'' \<or> fileName = ''tsconfig.json'' \<or>
            endsWith fileName ''.config.js'' \<or> endsWith fileName ''.config.ts'' then ''config''
         else if lang = ''markdown'' \<or> endsWith fileName ''.md'' \<or>
            fileName = ''readme'' \<or> fileName = ''readme.txt'' then ''documentation''
         else lang)"

section \<open>Indexing\<close>

definition newDocument :: "Platform \<Rightarrow> string \<Rightarrow> Stats \<Rightarrow> string \<Rightarrow> IndexedDocument" where
  \<comment> \<open>the document that is stored for a file that was read\<close>
  "newDocument P filePath stats cont =
     (let lang = getLanguageFromPath P filePath
      in \<lparr>path = filePath, content = cont, language = lang, lastModified = mtime stats,
          tokens = estimateTokenCount cont,
          symbols = Some (extractSymbols cont lang), imports' = Some (extractImports cont lang),
          exports = Some (extractExports cont lang), comments = Some (extractComments cont lang),
          fileType = Some (detectFileType P filePath cont lang)\<rparr>)"

definition indexFile1 :: "Platform \<Rightarrow> LocalRagService \<Rightarrow> string \<Rightarrow> LocalRagService" where
  \<comment> \<open>the body of the loop over the files of a folder, with its \<open>try\<close>: an error of \<open>stat\<close>
      or \<open>readFile\<close> is logged and the file is left out\<close>
  "indexFile1 P this filePath =
     (if (case kodelyIgnoreController this of None \<Rightarrow> False | Some validateAccess \<Rightarrow> \<not> validateAccess filePath)
      then this
      else case fs_stat P filePath of
        Inl e \<Rightarrow> this
      | Inr stats \<Rightarrow>
          if size' stats > 1024 * 1024 then this
          else if (case mapGet (indexedDocuments this) filePath of
                     None \<Rightarrow> False
                   | Some existingDoc \<Rightarrow> lastModified existingDoc \<ge> mtime stats) then this
          else case fs_readFile P filePath of
            Inl e \<Rightarrow> this
          | Inr cont \<Rightarrow>
              this\<lparr>indexedDocuments :=
                mapSet (indexedDocuments this) filePath (newDocument P filePath stats cont)\<rparr>)"

fun indexFolders :: "Platform \<Rightarrow> LocalRagService \<Rightarrow> string list \<Rightarrow> error option \<times> LocalRagService" where
  \<comment> \<open>the loop over the workspace folders; an error of \<open>glob\<close> is not caught and ends it\<close>
  "indexFolders P this [] = (None, this)"
| "indexFolders P this (folderPath # rest) =
     (case glob P folderPath of
        Inl e \<Rightarrow> (Some e, this)
      | Inr files \<Rightarrow> indexFolders P (foldl (indexFile1 P) this (map (path_join P folderPath) files)) rest)"

definition skipped :: "Platform \<Rightarrow> LocalRagService \<Rightarrow> string \<Rightarrow> bool" where
  \<comment> \<open>the ways in which the loop body leaves a file alone: access denied, \<open>stat\<close> fails,
      the file is too large, its document is up to date, or \<open>readFile\<close> fails\<close>
  "skipped P this filePath \<longleftrightarrow>
     (case kodelyIgnoreController this of None \<Rightarrow> False | Some validateAccess \<Rightarrow> \<not> validateAccess filePath) \<or>
     (case fs_stat P filePath of
        Inl e \<Rightarrow> True
      | Inr stats \<Rightarrow>
          size' stats > 1024 * 1024 \<or>
          (case mapGet (indexedDocuments this) filePath of
             None \<Rightarrow> False
           | Some existingDoc \<Rightarrow> lastModified existingDoc \<ge> mtime stats) \<or>
          (case fs_readFile P filePath of Inl e \<Rightarrow> True | Inr cont \<Rightarrow> False))"

fun visitedFiles :: "Platform \<Rightarrow> string list \<Rightarrow> string list" where
  \<comment> \<open>the paths that the two loops go through, in their order, up to a failure of \<open>glob\<close>\<close>
  "visitedFiles P [] = []"
| "visitedFiles P (folderPath # rest) =
     (case glob P folderPath of
        Inl e \<Rightarrow> []
      | Inr files \<Rightarrow> map (path_join P folderPath) files @ visitedFiles P rest)"

fun globOutcome :: "Platform \<Rightarrow> string list \<Rightarrow> error option" where
  \<comment> \<open>the error of the first \<open>glob\<close> that fails\<close>
  "globOutcome P [] = None"
| "globOutcome P (folderPath # rest) =
     (case glob P folderPath of Inl e \<Rightarrow> Some e | Inr files \<Rightarrow> globOutcome P rest)"

definition writeIndex :: "Platform \<Rightarrow> State \<Rightarrow> error + State" where
  \<comment> \<open>the \<open>try\<close> block of \<open>saveIndex\<close>: \<open>mkdir\<close>, \<open>JSON.stringify\<close> of the entries, \<open>writeFile\<close>\<close>
  "writeIndex P st =
     (if index_writable P
      then Inr (st\<lparr>indexFile := Some (JSON_stringify P (indexedDocuments (service st)))\<rparr>)
      else Inl FsError)"

definition saveIndex :: "Platform \<Rightarrow> State \<Rightarrow> State" where
  \<comment> \<open>the \<open>catch\<close> of \<open>saveIndex\<close> logs the error and throws nothing\<close>
  "saveIndex P st = (case writeIndex P st of Inl e \<Rightarrow> st | Inr st' \<Rightarrow> st')"

definition indexWorkspace :: "Platform \<Rightarrow> State \<Rightarrow> string list \<Rightarrow> error option \<times> State" where
  "indexWorkspace P st workspaceFolders =
     (if isIndexing (service st) then (None, st)
      else case indexFolders P ((service st)\<lparr>isIndexing := True\<rparr>) workspaceFolders of
        (Some e, this) \<Rightarrow> (Some e, st\<lparr>service := this\<lparr>isIndexing := False\<rparr>\<rparr>)
      | (None, this) \<Rightarrow>
          (let st' = saveIndex P (st\<lparr>service := this\<rparr>)
           in (None, st'\<lparr>service := (service st')\<lparr>isIndexing := False\<rparr>\<rparr>)))"

definition readIndex :: "Platform \<Rightarrow> State \<Rightarrow> error + State" where
  \<comment> \<open>the \<open>try\<close> block of \<open>loadIndex\<close>: \<open>readFile\<close>, then \<open>JSON.parse\<close> and \<open>new Map\<close>\<close>
  "readIndex P st =
     (case (if index_readable P then indexFile st else None) of
        None \<Rightarrow> Inl FsError
      | Some data \<Rightarrow>
          (case JSON_parse P data of
             Inl e \<Rightarrow> Inl e
           | Inr serializedIndex \<Rightarrow>
               Inr (st\<lparr>service := (service st)\<lparr>indexedDocuments := serializedIndex\<rparr>\<rparr>)))"

definition loadIndex :: "Platform \<Rightarrow> State \<Rightarrow> error + State" where
  \<comment> \<open>the \<open>catch\<close> of \<open>loadIndex\<close> throws a new error, whatever was caught\<close>
  "loadIndex P st = (case readIndex P st of Inl e \<Rightarrow> Inl LoadError | Inr st' \<Rightarrow> Inr st')"

definition fs_access :: "State \<Rightarrow> error + unit" where
  \<comment> \<open>\<open>fs.access(this.indexPath)\<close> throws when the file does not exist\<close>
  "fs_access st = (case indexFile st of None \<Rightarrow> Inl FsError | Some data \<Rightarrow> Inr ())"

definition initialize :: "Platform \<Rightarrow> State \<Rightarrow> error + State" where
  \<comment> \<open>the outer \<open>try\<close> block holds the inner one around \<open>fs.access\<close> and the call of
      \<open>loadIndex\<close>; the outer \<open>catch\<close> empties the index and saves it\<close>
  "initialize P st =
     (case (case fs_access st of
              Inl err \<Rightarrow> Inr (saveIndex P (st\<lparr>service := (service st)\<lparr>indexedDocuments := []\<rparr>\<rparr>))
            | Inr ok \<Rightarrow> loadIndex P st) of
        Inl e \<Rightarrow> Inr (saveIndex P (st\<lparr>service := (service st)\<lparr>indexedDocuments := []\<rparr>\<rparr>))
      | Inr st' \<Rightarrow> Inr st')"

section \<open>Calls of indexWorkspace in flight\<close>

text \<open>
  \<open>indexWorkspace\<close> is an \<open>async\<close> function on one thread: it runs without interruption from
  one \<open>await\<close> to the next, and other calls can run while it waits. A call in flight is
  the operation it waits for and what is left of its loops.
\<close>

datatype task =
    AwaitGlob string "string list"
      \<comment> \<open>\<open>glob\<close> on a folder; the folders after it\<close>
  | AwaitStat string "string list" "string list"
      \<comment> \<open>\<open>stat\<close> on a file; the files after it in its folder; the folders after that one\<close>
  | AwaitRead string Stats "string list" "string list"
      \<comment> \<open>\<open>readFile\<close> on a file whose \<open>stat\<close> is known\<close>
  | AwaitSave
      \<comment> \<open>\<open>saveIndex\<close>, after the last folder\<close>

datatype call =
    Pending "string list"     \<comment> \<open>called with these folders, not run yet\<close>
  | Running task
  | Returned "error option"   \<comment> \<open>the promise is settled: resolved, or rejected with an error\<close>

fun nextFolder :: "string list \<Rightarrow> task" where
  "nextFolder [] = AwaitSave"
| "nextFolder (folderPath # rest) = AwaitGlob folderPath rest"

fun nextFile :: "LocalRagService \<Rightarrow> string list \<Rightarrow> string list \<Rightarrow> task" where
  \<comment> \<open>the loop over the files up to its next \<open>await\<close>: a file that the ignore controller
      denies is passed over at once\<close>
  "nextFile this [] rest = nextFolder rest"
| "nextFile this (filePath # files) rest =
     (if (case kodelyIgnoreController this of None \<Rightarrow> False | Some validateAccess \<Rightarrow> \<not> validateAccess filePath)
      then nextFile this files rest
      else AwaitStat filePath files rest)"

fun resume :: "Platform \<Rightarrow> State \<Rightarrow> task \<Rightarrow> (task + error option) \<times> State" where
  \<comment> \<open>the awaited operation completes and the call runs on: to its next \<open>await\<close> (\<open>Inl\<close>) or
      out of the \<open>try\<close> block (\<open>Inr\<close>, with the error thrown if there is one)\<close>
  "resume P st (AwaitGlob folderPath rest) =
     (case glob P folderPath of
        Inl e \<Rightarrow> (Inr (Some e), st)
      | Inr files \<Rightarrow> (Inl (nextFile (service st) (map (path_join P folderPath) files) rest), st))"
| "resume P st (AwaitStat filePath files rest) =
     (case fs_stat P filePath of
        Inl e \<Rightarrow> (Inl (nextFile (service st) files rest), st)
      | Inr stats \<Rightarrow>
          if size' stats > 1024 * 1024 then (Inl (nextFile (service st) files rest), st)
          else if (case mapGet (indexedDocuments (service st)) filePath of
                     None \<Rightarrow> False
                   | Some existingDoc \<Rightarrow> lastModified existingDoc \<ge> mtime stats)
          then (Inl (nextFile (service st) files rest), st)
          else (Inl (AwaitRead filePath stats files rest), st))"
| "resume P st (AwaitRead filePath stats files rest) =
     (case fs_readFile P filePath of
        Inl e \<Rightarrow> (Inl (nextFile (service st) files rest), st)
      | Inr cont \<Rightarrow>
          (Inl (nextFile (service st) files rest),
           st\<lparr>service := (service st)\<lparr>indexedDocuments :=
             mapSet (indexedDocuments (service st)) filePath (newDocument P filePath stats cont)\<rparr>\<rparr>))"
| "resume P st AwaitSave = (Inr None, saveIndex P st)"

fun inFlight :: "call \<Rightarrow> bool" where
  "inFlight (Running t) = True"
| "inFlight c = False"

definition step :: "Platform \<Rightarrow> nat \<Rightarrow> State \<times> call list \<Rightarrow> State \<times> call list" where
  \<comment> \<open>the scheduler lets call \<open>i\<close> run: a new call tests the guard and either returns at
      once or sets the guard and runs to its first \<open>await\<close>; a call in flight is resumed, and
      when it leaves the \<open>try\<close> block its \<open>finally\<close> clears the guard\<close>
  "step P i cfg =
     (case cfg of (st, calls) \<Rightarrow>
        if i < length calls then
          (case calls ! i of
             Pending workspaceFolders \<Rightarrow>
               if isIndexing (service st) then (st, calls[i := Returned None])
               else (st\<lparr>service := (service st)\<lparr>isIndexing := True\<rparr>\<rparr>,
                     calls[i := Running (nextFolder workspaceFolders)])
           | Running t \<Rightarrow>
               (case resume P st t of
                  (Inl t', st') \<Rightarrow> (st', calls[i := Running t'])
                | (Inr outcome, st') \<Rightarrow>
                    (st'\<lparr>service := (service st')\<lparr>isIndexing := False\<rparr>\<rparr>, calls[i := Returned outcome]))
           | Returned outcome \<Rightarrow> (st, calls))
        else (st, calls))"

definition run :: "Platform \<Rightarrow> nat list \<Rightarrow> State \<times> call list \<Rightarrow> State \<times> call list" where
  \<comment> \<open>a schedule is the list of the calls that run, one step each, in this order\<close>
  "run P schedule cfg = foldl (\<lambda>c i. step P i c) cfg schedule"

definition guardInvariant :: "State \<times> call list \<Rightarrow> bool" where
  \<comment> \<open>the guard is set exactly when one call is in flight, and no two calls ever are\<close>
  "guardInvariant cfg \<longleftrightarrow>
     length (filter inFlight (snd cfg)) = (if isIndexing (service (fst cfg)) then 1 else 0)"

section \<open>The search as the specification words it\<close>

fun acceptWithinBudget :: "int \<Rightarrow> int \<Rightarrow> SearchResult list \<Rightarrow> SearchResult list" where
  \<comment> \<open>Greedy accumulation in ranked order: a candidate whose token count exceeds what is
      left of the budget is skipped, and the next candidate is looked at.\<close>
  "acceptWithinBudget budget used [] = []"
| "acceptWithinBudget budget used (c # cs) =
     (if tokens (document c) > budget - used then acceptWithinBudget budget used cs
      else c # acceptWithinBudget budget (used + tokens (document c)) cs)"

fun occurrences :: "string \<Rightarrow> nat \<Rightarrow> string \<Rightarrow> nat" where
  \<comment> \<open>The occurrences of a term as a literal substring, counted from the left without
      overlap; the second argument counts the characters of the last occurrence still to
      be passed over.\<close>
  "occurrences t k [] = 0"
| "occurrences t (Suc k) (c # cs) = occurrences t k cs"
| "occurrences t 0 (c # cs) =
     (if startsWith (c # cs) t then Suc (occurrences t (length t - 1) cs)
      else occurrences t 0 cs)"

definition containing :: "string \<Rightarrow> string list option \<Rightarrow> nat" where
  \<comment> \<open>how many entries of a metadata list contain the term, case-folded\<close>
  "containing term field =
     length (filter (\<lambda>x. includes_str (toLowerCase x) term) (case field of None \<Rightarrow> [] | Some xs \<Rightarrow> xs))"

definition claimedFileTypeBoost :: "string list \<Rightarrow> IndexedDocument \<Rightarrow> bool" where
  "claimedFileTypeBoost terms doc =
     (case fileType doc of
        None \<Rightarrow> False
      | Some t \<Rightarrow> (\<exists>term \<in> set terms. includes_str (toLowerCase t) term) \<or>
                  (''test'' \<in> set terms \<and> includes_str t ''-test'') \<or>
                  (''react'' \<in> set terms \<and> includes_str t ''-react''))"

definition claimedScore :: "string list \<Rightarrow> IndexedDocument \<Rightarrow> rat" where
  "claimedScore terms doc =
     ((\<Sum>term \<leftarrow> terms.
          of_nat (occurrences term 0 (toLowerCase (content doc)))
        + 5 * of_nat (containing term (symbols doc))
        + 3 * of_nat (containing term (exports doc))
        + 2 * of_nat (containing term (imports' doc))
        + (3 / 2) * of_nat (containing term (comments doc)))
      + (if claimedFileTypeBoost terms doc then 4 else 0))
     / of_int (if tokens doc = 0 then 1 else tokens doc)"

section \<open>A small index and a small workspace\<close>

definition docA :: IndexedDocument where
  "docA = \<lparr>path = ''/w/a.ts'', content = ''function foo() {}'', language = ''typescript'',
     lastModified = 1, tokens = 10, symbols = Some [''foo''], imports' = Some [], exports = Some [],
     comments = Some [], fileType = Some ''typescript''\<rparr>"

definition docB :: IndexedDocument where
  "docB = \<lparr>path = ''/w/b.ts'', content = ''const Foo = 1'', language = ''typescript'',
     lastModified = 1, tokens = 50, symbols = Some [''Foo''], imports' = Some [], exports = Some [],
     comments = Some [], fileType = Some ''typescript''\<rparr>"

definition docC :: IndexedDocument where
  "docC = \<lparr>path = ''/w/c.txt'', content = ''abc foo'', language = ''plaintext'',
     lastModified = 1, tokens = 10, symbols = None, imports' = None, exports = None,
     comments = None, fileType = None\<rparr>"

definition docD :: IndexedDocument where
  "docD = \<lparr>path = ''/w/d.txt'', content = ''foo foo'', language = ''plaintext'',
     lastModified = 1, tokens = 20, symbols = None, imports' = None, exports = None,
     comments = None, fileType = None\<rparr>"

definition serviceTie :: LocalRagService where
  \<comment> \<open>\<open>docD\<close> and \<open>docC\<close> score the same for the query \<open>foo\<close>\<close>
  "serviceTie = \<lparr>indexedDocuments = [(''/w/d.txt'', docD), (''/w/c.txt'', docC), (''/w/a.ts'', docA)],
     isIndexing = False, kodelyIgnoreController = None\<rparr>"

definition serviceTieSwapped :: LocalRagService where
  \<comment> \<open>the entries of \<open>serviceTie\<close>, with \<open>docC\<close> set before \<open>docD\<close>\<close>
  "serviceTieSwapped = \<lparr>indexedDocuments = [(''/w/c.txt'', docC), (''/w/d.txt'', docD), (''/w/a.ts'', docA)],
     isIndexing = False, kodelyIgnoreController = None\<rparr>"

definition service0 :: LocalRagService where
  "service0 = \<lparr>indexedDocuments = [(''/w/c.txt'', docC), (''/w/b.ts'', docB), (''/w/a.ts'', docA)],
     isIndexing = False, kodelyIgnoreController = None\<rparr>"

definition noExt :: regexp_engine where
  \<comment> \<open>an engine for the examples, whose patterns all lie in the part modelled here\<close>
  "noExt p = None"

definition platform0 :: Platform where
  "platform0 = \<lparr>
     path_join = (\<lambda>d f. d @ ''/'' @ f),
     path_basename = (\<lambda>p. rev (takeWhile (\<lambda>c. c \<noteq> CHR ''/'') (rev p))),
     path_extname = (\<lambda>p. CHR ''.'' # rev (takeWhile (\<lambda>c. c \<noteq> CHR ''.'') (rev p))),
     glob = (\<lambda>d. if d = ''/w'' then Inr [''a.ts'', ''big.bin'', ''gone.py''] else Inl FsError),
     fs_stat = (\<lambda>p. if p = ''/w/a.ts'' then Inr \<lparr>size' = 18, mtime = 7\<rparr>
                     else if p = ''/w/big.bin'' then Inr \<lparr>size' = 2000000, mtime = 7\<rparr>
                     else Inl FsError),
     fs_readFile = (\<lambda>p. if p = ''/w/a.ts'' then Inr ''// x\<newline>// x\<newline>let a=1'' else Inl FsError),
     index_readable = True,
     index_writable = True,
     JSON_stringify = (\<lambda>m. concat (map fst m)),
     JSON_parse = (\<lambda>s. if s = [] then Inr [] else Inl SyntaxError)\<rparr>"

definition state0 :: State where
  "state0 = \<lparr>service = \<lparr>indexedDocuments = [], isIndexing = False, kodelyIgnoreController = None\<rparr>,
     indexFile = None\<rparr>"

definition docIndexed :: IndexedDocument where
  "docIndexed = \<lparr>path = ''/w/a.ts'', content = ''// x\<newline>// x\<newline>let a=1'', language = ''typescript'',
     lastModified = 7, tokens = 5, symbols = Some [''a''], imports' = Some [], exports = Some [],
     comments = Some [''x'', ''x''], fileType = Some ''typescript''\<rparr>"

definition state1 :: State where
  "state1 = \<lparr>service = \<lparr>indexedDocuments = [(''/w/a.ts'', docIndexed)], isIndexing = False,
     kodelyIgnoreController = None\<rparr>, indexFile = Some ''/w/a.ts''\<rparr>"

definition stateCorrupt :: State where
  "stateCorrupt = \<lparr>service = service0, indexFile = Some ''[[''\<rparr>"

section \<open>Properties of the search\<close>

lemmas search_eval =
  search_def queryTerms_def toLowerCase_def lowerChar_def isSpace_def upperCaseLetters_def
  lowerCaseLetters_def mapValues_def docA_def docB_def docC_def service0_def noExt_def
  scoreDocument_def rawScore_def newRegExp_def inFragment_def isSyntaxCharacter_def atomsOf_def
  countMatches_def metadataBoost_def fileTypeMatches_def sortByRelevance_def slice0_def
  isLineTerminator_def

lemmas rx_eval = seqs_def Str_def Plus_def Opt_def replaceFirst_def groupAt_def trim_def endsWith_def
  newSet_def isWordChar_def isIdentChar_def isModuleChar_def isQuote_def spaces_def optSpaces_def
  restOfLine_def pushNames_def isSpace_def isLineTerminator_def pushGroups_def isJsFamily_def
  bindingNames_def callableNames_def classNames_def quoted_def

lemma search_foo_eval:
  "search noExt service0 ''foo'' 5 25 =
     Inr [\<lparr>document = docA, relevanceScore = 3 / 5\<rparr>, \<lparr>document = docC, relevanceScore = 1 / 10\<rparr>]"
  by (simp add: search_eval)

lemma respectTokenLimit_accept:
  "respectTokenLimit mt (acc, tot) xs = acc @ acceptWithinBudget mt tot xs"
  by (induction xs arbitrary: acc tot) auto

lemma accept_sum:
  "used \<le> budget \<Longrightarrow>
     used + (\<Sum>c\<leftarrow>acceptWithinBudget budget used cs. tokens (document c)) \<le> budget"
proof (induction cs arbitrary: used)
  case Nil
  then show ?case by simp
next
  case (Cons c cs)
  show ?case
  proof (cases "tokens (document c) > budget - used")
    case True
    with Cons show ?thesis by simp
  next
    case False
    then have "used + tokens (document c) \<le> budget" by simp
    from Cons.IH [OF this] False show ?thesis by (simp add: add.assoc)
  qed
qed

lemma accept_length: "length (acceptWithinBudget b u cs) \<le> length cs"
  by (induction cs arbitrary: u) (auto simp: le_SucI)

lemma accept_subset: "set (acceptWithinBudget b u cs) \<subseteq> set cs"
  by (induction cs arbitrary: u) auto

lemma slice0_length: "0 \<le> e \<Longrightarrow> int (length (slice0 xs e)) \<le> e"
  by (simp add: slice0_def)

lemma slice0_subset: "set (slice0 xs e) \<subseteq> set xs"
  by (auto simp: slice0_def dest: in_set_takeD)

lemma sortByRelevance_descending:
  "sorted_wrt (\<lambda>a b. relevanceScore b \<le> relevanceScore a) (sortByRelevance rs)"
proof -
  have "sorted (map (\<lambda>r. - relevanceScore r) (sortByRelevance rs))"
    by (simp add: sortByRelevance_def)
  then show ?thesis by (simp add: sorted_map)
qed

lemma sortByRelevance_mset: "mset (sortByRelevance rs) = mset rs"
  by (simp add: sortByRelevance_def)

lemma scoreAll_results:
  "scoreAll ext terms docs = Inr rs \<Longrightarrow> r \<in> set rs \<Longrightarrow>
     0 < relevanceScore r \<and> document r \<in> set docs \<and>
     scoreDocument ext terms (document r) = Inr (relevanceScore r)"
  by (induction docs arbitrary: rs) (auto split: sum.splits if_splits)

lemma search_results_subset:
  assumes "search ext this query maxResults maxTokens = Inr rs"
  obtains scored where "scoreAll ext (queryTerms query) (mapValues (indexedDocuments this)) = Inr scored"
    and "rs = acceptWithinBudget maxTokens 0 (slice0 (sortByRelevance scored) maxResults)"
    and "set rs \<subseteq> set scored"
proof -
  from assms obtain scored
    where sc: "scoreAll ext (queryTerms query) (mapValues (indexedDocuments this)) = Inr scored"
      and rs: "rs = acceptWithinBudget maxTokens 0 (slice0 (sortByRelevance scored) maxResults)"
    by (auto simp: search_def respectTokenLimit_accept split: sum.splits)
  have "set rs \<subseteq> set (slice0 (sortByRelevance scored) maxResults)"
    unfolding rs by (rule accept_subset)
  also have "\<dots> \<subseteq> set (sortByRelevance scored)" by (rule slice0_subset)
  also have "\<dots> = set scored" by (simp add: sortByRelevance_def)
  finally show thesis using sc rs that by blast
qed

text \<open>
  Claim C1, as amended. Whenever \<open>search\<close> returns a list: if \<open>maxResults\<close> is not negative the
  list has at most \<open>maxResults\<close> documents; if \<open>maxTokens\<close> is not negative the token counts
  of the returned documents sum to at most \<open>maxTokens\<close>; and the list is the greedy
  accumulation over the candidates in descending order of score, where a candidate that
  would pass the budget is skipped whole and the next one is looked at.
\<close>

theorem search_respects_limits:
  assumes "search ext this query maxResults maxTokens = Inr rs"
  shows "(0 \<le> maxResults \<longrightarrow> int (length rs) \<le> maxResults) \<and>
         (0 \<le> maxTokens \<longrightarrow> (\<Sum>r\<leftarrow>rs. tokens (document r)) \<le> maxTokens) \<and>
         (\<exists>scored. scoreAll ext (queryTerms query) (mapValues (indexedDocuments this)) = Inr scored \<and>
            mset (sortByRelevance scored) = mset scored \<and>
            sorted_wrt (\<lambda>a b. relevanceScore b \<le> relevanceScore a) (sortByRelevance scored) \<and>
            rs = acceptWithinBudget maxTokens 0 (slice0 (sortByRelevance scored) maxResults))"
proof -
  from assms obtain scored
    where sc: "scoreAll ext (queryTerms query) (mapValues (indexedDocuments this)) = Inr scored"
      and rs: "rs = acceptWithinBudget maxTokens 0 (slice0 (sortByRelevance scored) maxResults)"
    by (rule search_results_subset)
  have len: "int (length rs) \<le> maxResults" if "0 \<le> maxResults"
  proof -
    have "length rs \<le> length (slice0 (sortByRelevance scored) maxResults)"
      unfolding rs by (rule accept_length)
    with slice0_length [OF that, of "sortByRelevance scored"] show ?thesis by linarith
  qed
  have tok: "(\<Sum>r\<leftarrow>rs. tokens (document r)) \<le> maxTokens" if "0 \<le> maxTokens"
    using accept_sum [OF that, of "slice0 (sortByRelevance scored) maxResults"] rs by simp
  show ?thesis
    using len tok sc rs sortByRelevance_mset sortByRelevance_descending by blast
qed

theorem search_respects_limits_witness:
  "search noExt service0 ''foo'' 5 25 =
     Inr [\<lparr>document = docA, relevanceScore = 3 / 5\<rparr>, \<lparr>document = docC, relevanceScore = 1 / 10\<rparr>] \<and>
   (0::int) \<le> 5 \<and>
   int (length [\<lparr>document = docA, relevanceScore = 3 / 5\<rparr>,
        \<lparr>document = docC, relevanceScore = 1 / 10\<rparr>]) \<le> 5 \<and>
   (0::int) \<le> 25 \<and>
   (\<Sum>r\<leftarrow>[\<lparr>document = docA, relevanceScore = 3 / 5\<rparr>,
        \<lparr>document = docC, relevanceScore = 1 / 10\<rparr>]. tokens (document r)) \<le> 25"
  using search_respects_limits [OF search_foo_eval] search_foo_eval by simp

theorem search_negative_limits_counterexample:
  "search noExt service0 ''foo'' (-1) 100 =
     Inr [\<lparr>document = docA, relevanceScore = 3 / 5\<rparr>, \<lparr>document = docB, relevanceScore = 3 / 25\<rparr>] \<and>
   \<not> int (length [\<lparr>document = docA, relevanceScore = 3 / 5\<rparr>,
        \<lparr>document = docB, relevanceScore = 3 / 25\<rparr>]) \<le> -1 \<and>
   search noExt service0 ''foo'' 5 (-1) = Inr [] \<and>
   \<not> sum_list (map (tokens \<circ> document) ([] :: SearchResult list)) \<le> -1"
  by (simp add: search_eval)


text \<open>
  Claim C4. Every result that \<open>search\<close> returns is a document of the index with its own
  score, and that score is strictly positive; a document whose score is zero or negative
  is in no result.
\<close>

theorem search_scores_positive:
  assumes "search ext this query maxResults maxTokens = Inr rs"
  shows "(\<forall>r \<in> set rs. 0 < relevanceScore r \<and>
            document r \<in> set (mapValues (indexedDocuments this)) \<and>
            scoreDocument ext (queryTerms query) (document r) = Inr (relevanceScore r)) \<and>
         (\<forall>doc score. scoreDocument ext (queryTerms query) doc = Inr score \<and> score \<le> 0 \<longrightarrow>
            doc \<notin> document ` set rs)"
proof -
  from assms obtain scored
    where sc: "scoreAll ext (queryTerms query) (mapValues (indexedDocuments this)) = Inr scored"
      and sub: "set rs \<subseteq> set scored"
    by (rule search_results_subset)
  have each: "0 < relevanceScore r \<and> document r \<in> set (mapValues (indexedDocuments this)) \<and>
      scoreDocument ext (queryTerms query) (document r) = Inr (relevanceScore r)" if "r \<in> set rs" for r
    using scoreAll_results [OF sc] that sub by blast
  have excl: "doc \<notin> document ` set rs"
    if "scoreDocument ext (queryTerms query) doc = Inr score" "score \<le> 0" for doc score
  proof
    assume "doc \<in> document ` set rs"
    then obtain r where "r \<in> set rs" "doc = document r" by blast
    with each [of r] that show False by simp
  qed
  from each excl show ?thesis by blast
qed

theorem search_scores_positive_witness:
  "search noExt service0 ''foo'' 5 25 =
     Inr [\<lparr>document = docA, relevanceScore = 3 / 5\<rparr>, \<lparr>document = docC, relevanceScore = 1 / 10\<rparr>] \<and>
   0 < relevanceScore \<lparr>document = docA, relevanceScore = 3 / 5\<rparr> \<and>
   0 < relevanceScore \<lparr>document = docC, relevanceScore = 1 / 10\<rparr> \<and>
   scoreDocument noExt (queryTerms ''foo'') docC = Inr (1 / 10)"
  using search_scores_positive [OF search_foo_eval] search_foo_eval by simp

subsection \<open>Repeated invocations\<close>

lemma sortPermitted_sortByRelevance: "sortPermitted results (sortByRelevance results)"
proof -
  have st: "filter (\<lambda>r. relevanceScore r = relevanceScore k) (sortByRelevance results) =
      filter (\<lambda>r. relevanceScore r = relevanceScore k) results" for k
    using sort_key_stable [of "\<lambda>r. - relevanceScore r" "- relevanceScore k" results]
    by (simp add: sortByRelevance_def)
  have "sorted_wrt (\<lambda>a b. relevanceScore b - relevanceScore a \<le> 0) (sortByRelevance results)"
    using sortByRelevance_descending [of results] by simp
  then show ?thesis
    by (simp add: sortPermitted_def sortByRelevance_mset st)
qed

lemma sortPermitted_unique:
  assumes "sortPermitted results ordered"
  shows "ordered = sortByRelevance results"
proof -
  have "sort_key (\<lambda>r. - relevanceScore r) results = ordered"
  proof (rule properties_for_sort_key)
    from assms show "mset ordered = mset results" by (simp add: sortPermitted_def)
  next
    fix k assume "k \<in> set ordered"
    with assms have stab: "filter (\<lambda>r. relevanceScore r = relevanceScore k) ordered =
        filter (\<lambda>r. relevanceScore r = relevanceScore k) results"
      by (simp add: sortPermitted_def)
    have eq: "filter (\<lambda>x. - relevanceScore k = - relevanceScore x) l =
        filter (\<lambda>r. relevanceScore r = relevanceScore k) l" for l
      by (rule filter_cong) auto
    show "filter (\<lambda>x. - relevanceScore k = - relevanceScore x) ordered =
        filter (\<lambda>x. - relevanceScore k = - relevanceScore x) results"
      unfolding eq by (rule stab)
  next
    from assms have "sorted_wrt (\<lambda>a b. relevanceScore b - relevanceScore a \<le> 0) ordered"
      by (simp add: sortPermitted_def)
    then show "List.sorted (map (\<lambda>r. - relevanceScore r) ordered)"
      by (simp add: sorted_map)
  qed
  then show ?thesis by (simp add: sortByRelevance_def)
qed

lemma mset_insertByScore: "mset (insertByScore x ys) = add_mset x (mset ys)"
  by (induction ys) auto

lemma set_insertByScore: "set (insertByScore x ys) = insert x (set ys)"
  by (induction ys) auto

lemma sorted_insertByScore:
  "sorted_wrt (\<lambda>a b. relevanceScore b \<le> relevanceScore a) ys \<Longrightarrow>
     sorted_wrt (\<lambda>a b. relevanceScore b \<le> relevanceScore a) (insertByScore x ys)"
  by (induction ys) (auto simp: set_insertByScore)

lemma filter_insertByScore:
  "sorted_wrt (\<lambda>a b. relevanceScore b \<le> relevanceScore a) ys \<Longrightarrow>
     filter (\<lambda>r. relevanceScore r = k) (insertByScore x ys) =
     filter (\<lambda>r. relevanceScore r = k) ys @ (if relevanceScore x = k then [x] else [])"
proof (induction ys)
  case Nil
  then show ?case by simp
next
  case (Cons y ys)
  show ?case
  proof (cases "relevanceScore y < relevanceScore x")
    case True
    with Cons.prems have "\<forall>r \<in> set (y # ys). relevanceScore r < relevanceScore x" by auto
    then have "relevanceScore x = k \<Longrightarrow> filter (\<lambda>r. relevanceScore r = k) (y # ys) = []"
      by (auto simp: filter_empty_conv)
    with True show ?thesis by auto
  next
    case False
    with Cons show ?thesis by auto
  qed
qed

lemma insertionSort_snoc: "insertionSort (xs @ [x]) = insertByScore x (insertionSort xs)"
  by (simp add: insertionSort_def)

lemma insertionSort_properties:
  "mset (insertionSort xs) = mset xs \<and>
   sorted_wrt (\<lambda>a b. relevanceScore b \<le> relevanceScore a) (insertionSort xs) \<and>
   (\<forall>k. filter (\<lambda>r. relevanceScore r = k) (insertionSort xs) = filter (\<lambda>r. relevanceScore r = k) xs)"
proof (induction xs rule: rev_induct)
  case Nil
  then show ?case by (simp add: insertionSort_def)
next
  case (snoc x xs)
  then show ?case
    by (simp add: insertionSort_snoc mset_insertByScore sorted_insertByScore filter_insertByScore)
qed

lemma sortPermitted_insertionSort: "sortPermitted results (insertionSort results)"
  using insertionSort_properties [of results] by (simp add: sortPermitted_def)

text \<open>
  Claim C8. Take two sorts that the language permits (two engines, or two invocations on
  an engine that does not always sort alike) and two services with the same snapshot of
  \<open>indexedDocuments\<close>. An invocation returns what \<open>search\<close> returns on the snapshot and leaves
  its service as it was. So a second invocation on the same service, and an invocation on
  the other service, return the same outcome as the first: the same results in the same
  order, or the same error.
\<close>

theorem search_deterministic:
  assumes "indexedDocuments this = indexedDocuments this'"
    and "\<forall>results. sortPermitted results (sort1 results)"
    and "\<forall>results. sortPermitted results (sort2 results)"
  shows "searchWith sort1 ext this query maxResults maxTokens =
           (search ext this query maxResults maxTokens, this) \<and>
         fst (searchWith sort2 ext (snd (searchWith sort1 ext this query maxResults maxTokens))
                query maxResults maxTokens) =
           fst (searchWith sort1 ext this query maxResults maxTokens) \<and>
         fst (searchWith sort2 ext this' query maxResults maxTokens) =
           fst (searchWith sort1 ext this query maxResults maxTokens) \<and>
         search ext this' query maxResults maxTokens = search ext this query maxResults maxTokens"
proof -
  have s1: "sort1 results = sortByRelevance results" for results
    using assms(2) sortPermitted_unique by blast
  have s2: "sort2 results = sortByRelevance results" for results
    using assms(3) sortPermitted_unique by blast
  have w1: "searchWith sort1 ext t query maxResults maxTokens = (search ext t query maxResults maxTokens, t)" for t
    by (simp add: searchWith_def search_def s1 split: sum.splits)
  have w2: "searchWith sort2 ext t query maxResults maxTokens = (search ext t query maxResults maxTokens, t)" for t
    by (simp add: searchWith_def search_def s2 split: sum.splits)
  have same: "search ext this' query maxResults maxTokens = search ext this query maxResults maxTokens"
    using assms(1) by (simp add: search_def)
  show ?thesis by (simp add: w1 w2 same)
qed

lemma searchTie_eval:
  "search noExt serviceTie ''foo'' 2 100 =
     Inr [\<lparr>document = docA, relevanceScore = 3 / 5\<rparr>, \<lparr>document = docD, relevanceScore = 1 / 10\<rparr>]"
  by (simp add: search_eval serviceTie_def docD_def)

text \<open>
  Stability is needed: a sort that orders by score but is not stable returns \<open>docC\<close> where
  the permitted sorts return \<open>docD\<close>.
\<close>

lemma unstable_sort_changes_order:
  "mset (reversedTiesSort results) = mset results"
  "sorted_wrt (\<lambda>a b. relevanceScore b - relevanceScore a \<le> 0) (reversedTiesSort results)"
  "fst (searchWith reversedTiesSort noExt serviceTie ''foo'' 2 100) =
     Inr [\<lparr>document = docA, relevanceScore = 3 / 5\<rparr>, \<lparr>document = docC, relevanceScore = 1 / 10\<rparr>]"
proof -
  show "mset (reversedTiesSort results) = mset results" by (simp add: reversedTiesSort_def)
  have "sorted (map relevanceScore (sort_key relevanceScore results))" by simp
  then have "sorted_wrt (\<lambda>a b. relevanceScore a \<le> relevanceScore b) (sort_key relevanceScore results)"
    by (simp add: sorted_map)
  then show "sorted_wrt (\<lambda>a b. relevanceScore b - relevanceScore a \<le> 0) (reversedTiesSort results)"
    by (simp add: reversedTiesSort_def sorted_wrt_rev)
  show "fst (searchWith reversedTiesSort noExt serviceTie ''foo'' 2 100) =
     Inr [\<lparr>document = docA, relevanceScore = 3 / 5\<rparr>, \<lparr>document = docC, relevanceScore = 1 / 10\<rparr>]"
    by (simp add: searchWith_def reversedTiesSort_def search_eval serviceTie_def docD_def)
qed

theorem search_deterministic_witness:
  "indexedDocuments serviceTie = indexedDocuments (serviceTie\<lparr>isIndexing := True\<rparr>) \<and>
   (\<forall>results. sortPermitted results (insertionSort results)) \<and>
   (\<forall>results. sortPermitted results (sortByRelevance results)) \<and>
   searchWith insertionSort noExt serviceTie ''foo'' 2 100 =
     (Inr [\<lparr>document = docA, relevanceScore = 3 / 5\<rparr>, \<lparr>document = docD, relevanceScore = 1 / 10\<rparr>],
      serviceTie) \<and>
   fst (searchWith sortByRelevance noExt (serviceTie\<lparr>isIndexing := True\<rparr>) ''foo'' 2 100) =
     Inr [\<lparr>document = docA, relevanceScore = 3 / 5\<rparr>, \<lparr>document = docD, relevanceScore = 1 / 10\<rparr>]"
proof -
  have a: "indexedDocuments serviceTie = indexedDocuments (serviceTie\<lparr>isIndexing := True\<rparr>)" by simp
  have b: "\<forall>results. sortPermitted results (insertionSort results)"
    by (simp add: sortPermitted_insertionSort)
  have c: "\<forall>results. sortPermitted results (sortByRelevance results)"
    by (simp add: sortPermitted_sortByRelevance)
  from search_deterministic [OF a b c, of noExt "''foo''" 2 100] searchTie_eval a b c
  show ?thesis by simp
qed

text \<open>
  The snapshot is the \<open>Map\<close> with the order of its entries: results that score the same
  come in the order in which their paths were first set.
\<close>

lemma insertion_order_breaks_ties:
  "set (indexedDocuments serviceTieSwapped) = set (indexedDocuments serviceTie)"
  "search noExt serviceTieSwapped ''foo'' 2 100 =
     Inr [\<lparr>document = docA, relevanceScore = 3 / 5\<rparr>, \<lparr>document = docC, relevanceScore = 1 / 10\<rparr>]"
proof -
  show "set (indexedDocuments serviceTieSwapped) = set (indexedDocuments serviceTie)"
    by (auto simp: serviceTie_def serviceTieSwapped_def)
  show "search noExt serviceTieSwapped ''foo'' 2 100 =
     Inr [\<lparr>document = docA, relevanceScore = 3 / 5\<rparr>, \<lparr>document = docC, relevanceScore = 1 / 10\<rparr>]"
    by (simp add: search_eval serviceTieSwapped_def docD_def)
qed

lemma contentScore_throws:
  "(\<exists>e. contentScore ext c terms = Inl e) \<longleftrightarrow> (\<exists>t \<in> set terms. newRegExp ext t = None)"
  by (induction terms) (auto split: option.splits sum.splits)

lemma contentScore_error: "contentScore ext c terms = Inl e \<Longrightarrow> e = SyntaxError"
  by (induction terms) (auto split: option.splits sum.splits)

lemma scoreDocument_throws:
  "(\<exists>e. scoreDocument ext terms doc = Inl e) \<longleftrightarrow> (\<exists>t \<in> set terms. newRegExp ext t = None)"
  using contentScore_throws [of ext "toLowerCase (content doc)" terms]
  by (auto simp: scoreDocument_def rawScore_def split: sum.splits)

lemma scoreDocument_error: "scoreDocument ext terms doc = Inl e \<Longrightarrow> e = SyntaxError"
  by (auto simp: scoreDocument_def rawScore_def split: sum.splits dest: contentScore_error)

lemma scoreAll_throws:
  "(\<exists>e. scoreAll ext terms docs = Inl e) \<longleftrightarrow> (docs \<noteq> [] \<and> (\<exists>t \<in> set terms. newRegExp ext t = None))"
proof (induction docs)
  case Nil
  show ?case by simp
next
  case (Cons d ds)
  show ?case
  proof (cases "scoreDocument ext terms d")
    case (Inl e)
    with scoreDocument_throws [of ext terms d] show ?thesis by auto
  next
    case (Inr x)
    with scoreDocument_throws [of ext terms d] have no: "\<not> (\<exists>t \<in> set terms. newRegExp ext t = None)"
      by auto
    with Cons Inr show ?thesis by (auto split: sum.splits)
  qed
qed

lemma scoreAll_error: "scoreAll ext terms docs = Inl e \<Longrightarrow> e = SyntaxError"
  by (induction docs) (auto split: sum.splits dest: scoreDocument_error)

lemma search_throws_iff:
  "(\<exists>e. search ext this query maxResults maxTokens = Inl e) \<longleftrightarrow>
     (indexedDocuments this \<noteq> [] \<and> (\<exists>t \<in> set (queryTerms query). newRegExp ext t = None))"
  using scoreAll_throws [of ext "queryTerms query" "mapValues (indexedDocuments this)"]
  by (auto simp: search_def mapValues_def split: sum.splits)

lemma search_error: "search ext this query maxResults maxTokens = Inl e \<Longrightarrow> e = SyntaxError"
  by (auto simp: search_def split: sum.splits dest: scoreAll_error)

lemma unbalanced_pattern: "queryTerms ''((('' = [''((('']" "newRegExp ext ''((('' = None"
  by (simp_all add: search_eval)

lemma dot_pattern:
  "\<exists>matches. newRegExp ext ''a.c'' = Some matches \<and> matches ''abc'' = 1 \<and> occurrences ''a.c'' 0 ''abc'' = 0"
  by (simp add: search_eval)

text \<open>
  Claim C10. \<open>search\<close> throws exactly when the index is not empty and some query term is
  not a valid pattern; \<open>(((\<close> is such a term, so on every index with a document the query
  \<open>(((\<close> makes \<open>search\<close> throw a SyntaxError. A term is matched as a pattern: \<open>a.c\<close> is
  counted once in \<open>abc\<close>, where it does not occur as a substring.
\<close>

theorem search_not_total:
  "((\<exists>e. search ext this query maxResults maxTokens = Inl e) \<longleftrightarrow>
      indexedDocuments this \<noteq> [] \<and> (\<exists>t \<in> set (queryTerms query). newRegExp ext t = None)) \<and>
   (indexedDocuments this \<noteq> [] \<longrightarrow> search ext this ''((('' maxResults maxTokens = Inl SyntaxError) \<and>
   (\<exists>matches. newRegExp ext ''a.c'' = Some matches \<and> matches ''abc'' = 1 \<and>
      occurrences ''a.c'' 0 ''abc'' = 0)"
proof -
  have "search ext this ''((('' maxResults maxTokens = Inl SyntaxError" if "indexedDocuments this \<noteq> []"
  proof -
    from that unbalanced_pattern
    have "\<exists>e. search ext this ''((('' maxResults maxTokens = Inl e"
      by (simp add: search_throws_iff)
    then show ?thesis using search_error by blast
  qed
  with search_throws_iff dot_pattern show ?thesis by blast
qed

theorem search_not_total_witness:
  "indexedDocuments service0 \<noteq> [] \<and> search noExt service0 ''((('' 5 100 = Inl SyntaxError"
proof -
  have h: "indexedDocuments service0 \<noteq> []" by (simp add: service0_def)
  from search_not_total [of noExt service0 "''((('' " 5 100] h show ?thesis by blast
qed

subsection \<open>The score of a document\<close>

lemma matchesAt_literal: "matchesAt (map Lit t) s = startsWith s t"
  by (induction s t rule: startsWith.induct) auto

lemma scanMatches_literal: "scanMatches (map Lit t) k s = occurrences t k s"
  by (induction t k s rule: occurrences.induct) (auto simp: matchesAt_literal)

lemma balanced_literal: "\<forall>c \<in> set t. \<not> isSyntaxCharacter c \<Longrightarrow> balanced n t = (n = 0)"
  by (induction t arbitrary: n) (auto simp: isSyntaxCharacter_def)

lemma atomsOf_literal: "\<forall>c \<in> set t. \<not> isSyntaxCharacter c \<Longrightarrow> atomsOf t = map Lit t"
  by (induction t) (auto simp: atomsOf_def isSyntaxCharacter_def)

lemma newRegExp_literal:
  assumes "t \<noteq> []" "\<forall>c \<in> set t. \<not> isSyntaxCharacter c"
  shows "newRegExp ext t = Some (occurrences t 0)"
proof -
  from assms(2) have "inFragment t" by (auto simp: inFragment_def)
  moreover from assms(2) have "balanced 0 t" by (simp add: balanced_literal)
  moreover have "countMatches (map Lit t) = occurrences t 0"
    using assms(1) by (auto simp: countMatches_def scanMatches_literal)
  ultimately show ?thesis using assms(2) by (simp add: newRegExp_def atomsOf_literal)
qed

lemma contentScore_literal:
  "\<forall>t \<in> set terms. t \<noteq> [] \<and> (\<forall>c \<in> set t. \<not> isSyntaxCharacter c) \<Longrightarrow>
     contentScore ext c terms = Inr (\<Sum>t \<leftarrow> terms. of_nat (occurrences t 0 c))"
  by (induction terms) (auto simp: newRegExp_literal)

lemma inner_count:
  "(\<Sum>x \<leftarrow> xs. if P x then w else 0) = (w::rat) * of_nat (length (filter P xs))"
  by (induction xs) (auto simp: algebra_simps)

lemma metadataBoost_containing:
  "metadataBoost w terms field = (\<Sum>t \<leftarrow> terms. w * of_nat (containing t field))"
  by (cases field) (simp_all add: metadataBoost_def containing_def inner_count)

lemma includes_empty: "includes_str s [] = True"
  by (cases s) auto

lemma fileTypeMatches_claimed:
  assumes "\<forall>t \<in> set terms. t \<noteq> []"
  shows "fileTypeMatches terms (fileType doc) = claimedFileTypeBoost terms doc"
proof (cases "fileType doc")
  case None
  then show ?thesis by (simp add: fileTypeMatches_def claimedFileTypeBoost_def)
next
  case (Some ft)
  show ?thesis
  proof (cases "ft = []")
    case True
    with Some assms show ?thesis
      by (auto simp: fileTypeMatches_def claimedFileTypeBoost_def toLowerCase_def)
  next
    case False
    with Some show ?thesis
      by (auto simp: fileTypeMatches_def claimedFileTypeBoost_def list_ex_iff)
  qed
qed

lemma scoreDocument_literal_terms:
  assumes "\<forall>t \<in> set terms. t \<noteq> [] \<and> (\<forall>c \<in> set t. \<not> isSyntaxCharacter c)"
  shows "scoreDocument ext terms doc = Inr (claimedScore terms doc)"
proof -
  from assms have ne: "\<forall>t \<in> set terms. t \<noteq> []" by blast
  have "rawScore ext terms doc =
      Inr ((\<Sum>t \<leftarrow> terms. of_nat (occurrences t 0 (toLowerCase (content doc))))
        + (\<Sum>t \<leftarrow> terms. 5 * of_nat (containing t (symbols doc)))
        + (\<Sum>t \<leftarrow> terms. 2 * of_nat (containing t (imports' doc)))
        + (\<Sum>t \<leftarrow> terms. 3 * of_nat (containing t (exports doc)))
        + (\<Sum>t \<leftarrow> terms. (3 / 2) * of_nat (containing t (comments doc)))
        + (if claimedFileTypeBoost terms doc then 4 else 0))"
    by (simp add: rawScore_def contentScore_literal [OF assms] metadataBoost_containing
        fileTypeMatches_claimed [OF ne])
  also have "(\<Sum>t \<leftarrow> terms. of_nat (occurrences t 0 (toLowerCase (content doc))))
        + (\<Sum>t \<leftarrow> terms. 5 * of_nat (containing t (symbols doc)))
        + (\<Sum>t \<leftarrow> terms. 2 * of_nat (containing t (imports' doc)))
        + (\<Sum>t \<leftarrow> terms. 3 * of_nat (containing t (exports doc)))
        + (\<Sum>t \<leftarrow> terms. (3 / 2) * of_nat (containing t (comments doc)))
      = (\<Sum>term \<leftarrow> terms.
          (of_nat (occurrences term 0 (toLowerCase (content doc)))
        + 5 * of_nat (containing term (symbols doc))
        + 3 * of_nat (containing term (exports doc))
        + 2 * of_nat (containing term (imports' doc))
        + (3 / 2) * of_nat (containing term (comments doc)) :: rat))"
    by (simp add: sum_list_addf)
  finally show ?thesis by (simp add: scoreDocument_def claimedScore_def)
qed

lemma queryTerms_nonempty: "t \<in> set (queryTerms q) \<Longrightarrow> t \<noteq> []"
  by (auto simp: queryTerms_def)

text \<open>
  Claim C2 at the query \<open>a.c\<close> and the document \<open>docC\<close>, whose content is \<open>abc foo\<close>:
  the term does not occur in the content, so the claimed score is 0, but the code counts
  one match of the pattern, scores the document 1/10 and returns it. At the query \<open>(((\<close>
  no score is computed at all. The lemma \<open>scoreDocument_literal_terms\<close> above shows that
  the claimed formula is what the code computes when no term has a syntax character.
\<close>

theorem search_counts_pattern_matches:
  "queryTerms ''a.c'' = [''a.c''] \<and>
   scoreDocument noExt [''a.c''] docC = Inr (1 / 10) \<and>
   claimedScore [''a.c''] docC = 0 \<and>
   search noExt service0 ''a.c'' 5 100 = Inr [\<lparr>document = docC, relevanceScore = 1 / 10\<rparr>] \<and>
   search noExt service0 ''((('' 5 100 = Inl SyntaxError"
  by (simp add: search_eval claimedScore_def claimedFileTypeBoost_def containing_def)

section \<open>Properties of indexing\<close>

lemma estimateTokenCount_div: "estimateTokenCount t = (int (length t) + 3) div 4"
proof -
  have "\<lceil>real (length t) / 4\<rceil> = \<lceil>real_of_int (int (length t)) / real_of_int 4\<rceil>" by simp
  also have "\<dots> = - (- int (length t) div 4)" by (rule ceiling_divide_eq_div)
  also have "\<dots> = (int (length t) + 3) div 4" by presburger
  finally show ?thesis by (simp add: estimateTokenCount_def)
qed

lemma mapGet_mapSet_same: "mapGet (mapSet m k v) k = Some v"
  by (induction m) (auto simp: mapGet_def)


lemma set_mapSet: "set (mapSet m k v) \<subseteq> insert (k, v) (set m)"
  by (induction m) (auto split: if_splits)

lemma indexFile1_skipped: "skipped P this f \<Longrightarrow> indexFile1 P this f = this"
  by (auto simp: skipped_def indexFile1_def split: option.splits sum.splits)

lemma indexFile1_not_skipped:
  assumes "\<not> skipped P this f"
  obtains stats cont where "fs_stat P f = Inr stats" "fs_readFile P f = Inr cont"
    "indexFile1 P this f =
       this\<lparr>indexedDocuments := mapSet (indexedDocuments this) f (newDocument P f stats cont)\<rparr>"
  using assms by (auto simp: skipped_def indexFile1_def split: option.splits sum.splits)


lemma content_newDocument: "content (newDocument P f stats cont) = cont"
  by (simp add: newDocument_def Let_def)

lemma tokens_newDocument: "tokens (newDocument P f stats cont) = \<lceil>real (length cont) / 4\<rceil>"
  by (simp add: newDocument_def Let_def estimateTokenCount_def)

lemma indexFile1_frame:
  "isIndexing (indexFile1 P this f) = isIndexing this"
  "kodelyIgnoreController (indexFile1 P this f) = kodelyIgnoreController this"
  by (auto simp: indexFile1_def split: option.splits sum.splits)






lemma indexFolders_flat:
  "indexFolders P this folders = (globOutcome P folders, foldl (indexFile1 P) this (visitedFiles P folders))"
  by (induction folders arbitrary: this) (auto split: sum.splits)



lemma reset_flag:
  "isIndexing this \<Longrightarrow> this\<lparr>isIndexing := False\<rparr>\<lparr>isIndexing := True\<rparr> = this"
  by simp



lemma comments_eval: "extractComments ''// x\<newline>// x\<newline>let a=1'' ''typescript'' = [''x'', ''x'']"
  by (simp add: extractComments_def rx_eval)

lemma symbols_eval: "extractSymbols ''// x\<newline>// x\<newline>let a=1'' ''typescript'' = [''a'']"
  by (simp add: extractSymbols_def rx_eval)

lemma imports_eval: "extractImports ''// x\<newline>// x\<newline>let a=1'' ''typescript'' = []"
  by (simp add: extractImports_def rx_eval)

lemma exports_eval: "extractExports ''// x\<newline>// x\<newline>let a=1'' ''typescript'' = []"
  by (simp add: extractExports_def rx_eval)

lemma newDocument_eval:
  "newDocument platform0 ''/w/a.ts'' \<lparr>size' = 18, mtime = 7\<rparr> ''// x\<newline>// x\<newline>let a=1'' = docIndexed"
  by (simp add: newDocument_def getLanguageFromPath_def languageMap_def platform0_def toLowerCase_def
      lowerChar_def upperCaseLetters_def lowerCaseLetters_def comments_eval symbols_eval imports_eval
      exports_eval estimateTokenCount_div detectFileType_def docIndexed_def isJsFamily_def endsWith_def
      Let_def)

lemma indexWorkspace_eval: "indexWorkspace platform0 state0 [''/w''] = (None, state1)"
proof -
  have a: "indexFile1 platform0 \<lparr>indexedDocuments = [], isIndexing = True, kodelyIgnoreController = None\<rparr> ''/w/a.ts''
      = \<lparr>indexedDocuments = [(''/w/a.ts'', docIndexed)], isIndexing = True, kodelyIgnoreController = None\<rparr>"
    using newDocument_eval by (simp add: indexFile1_def platform0_def mapGet_def)
  have b: "indexFile1 platform0 this ''/w/big.bin'' = this" for this
    by (simp add: indexFile1_def platform0_def split: option.splits)
  have c: "indexFile1 platform0 this ''/w/gone.py'' = this" for this
    by (simp add: indexFile1_def platform0_def split: option.splits)
  have g: "glob platform0 ''/w'' = Inr [''a.ts'', ''big.bin'', ''gone.py'']"
    "path_join platform0 ''/w'' f = ''/w/'' @ f" for f
    by (simp_all add: platform0_def)
  show ?thesis
    by (simp add: indexWorkspace_def state0_def state1_def g a b c saveIndex_def writeIndex_def)
      (simp add: platform0_def)
qed


lemma indexFile1_entries:
  "(p, d) \<in> set (indexedDocuments (indexFile1 P this f)) \<Longrightarrow>
     (p, d) \<in> set (indexedDocuments this) \<or> tokens d = \<lceil>real (length (content d)) / 4\<rceil>"
proof (cases "skipped P this f")
  case True
  assume "(p, d) \<in> set (indexedDocuments (indexFile1 P this f))"
  with True show ?thesis by (simp add: indexFile1_skipped)
next
  case False
  assume in': "(p, d) \<in> set (indexedDocuments (indexFile1 P this f))"
  from False obtain stats cont where
    eq: "indexFile1 P this f =
       this\<lparr>indexedDocuments := mapSet (indexedDocuments this) f (newDocument P f stats cont)\<rparr>"
    by (rule indexFile1_not_skipped)
  from in' have "(p, d) \<in> insert (f, newDocument P f stats cont) (set (indexedDocuments this))"
    unfolding eq using set_mapSet [of "indexedDocuments this" f "newDocument P f stats cont"] by auto
  then show ?thesis
    by (auto simp: tokens_newDocument content_newDocument)
qed

lemma foldl_entries:
  "(p, d) \<in> set (indexedDocuments (foldl (indexFile1 P) this fs)) \<Longrightarrow>
     (p, d) \<in> set (indexedDocuments this) \<or> tokens d = \<lceil>real (length (content d)) / 4\<rceil>"
proof (induction fs arbitrary: this)
  case Nil
  then show ?case by simp
next
  case (Cons f fs)
  from Cons.IH [of "indexFile1 P this f"] Cons.prems
  have "(p, d) \<in> set (indexedDocuments (indexFile1 P this f)) \<or>
      tokens d = \<lceil>real (length (content d)) / 4\<rceil>" by simp
  with indexFile1_entries [of p d P this f] show ?case by blast
qed

lemma indexWorkspace_documents:
  "indexedDocuments (service (snd (indexWorkspace P st folders))) =
     (if isIndexing (service st) then indexedDocuments (service st)
      else indexedDocuments (foldl (indexFile1 P) ((service st)\<lparr>isIndexing := True\<rparr>) (visitedFiles P folders)))"
  by (cases "globOutcome P folders")
    (simp_all add: indexWorkspace_def indexFolders_flat saveIndex_def writeIndex_def Let_def)

text \<open>
  Claim C5. After an indexing pass, every entry of the index is either an entry that was
  there before the pass, untouched, or a document whose \<open>tokens\<close> is the ceiling of a quarter
  of the length of its content; so if all entries had that count before the pass, all
  have it after. And whenever the loop body does not skip a file, the
  document stored for it holds the content just read and the count computed from that
  content: nothing of an earlier document is carried over.
\<close>

theorem tokenCount_recomputed:
  "(\<forall>(p, d) \<in> set (indexedDocuments (service (snd (indexWorkspace P st folders)))).
       (p, d) \<in> set (indexedDocuments (service st)) \<or>
       tokens d = \<lceil>real (length (content d)) / 4\<rceil>) \<and>
   ((\<forall>(p, d) \<in> set (indexedDocuments (service st)). tokens d = \<lceil>real (length (content d)) / 4\<rceil>) \<longrightarrow>
    (\<forall>(p, d) \<in> set (indexedDocuments (service (snd (indexWorkspace P st folders)))).
       tokens d = \<lceil>real (length (content d)) / 4\<rceil>)) \<and>
   (\<not> skipped P this filePath \<longrightarrow>
      (\<exists>cont d. fs_readFile P filePath = Inr cont \<and>
         mapGet (indexedDocuments (indexFile1 P this filePath)) filePath = Some d \<and>
         content d = cont \<and> tokens d = \<lceil>real (length cont) / 4\<rceil>))"
proof -
  have pass: "(p, d) \<in> set (indexedDocuments (service st)) \<or>
      tokens d = \<lceil>real (length (content d)) / 4\<rceil>"
    if "(p, d) \<in> set (indexedDocuments (service (snd (indexWorkspace P st folders))))" for p d
  proof (cases "isIndexing (service st)")
    case True
    with that show ?thesis by (simp add: indexWorkspace_documents)
  next
    case False
    with that foldl_entries [of p d P "(service st)\<lparr>isIndexing := True\<rparr>" "visitedFiles P folders"]
    show ?thesis by (simp add: indexWorkspace_documents)
  qed
  have one: "\<exists>cont d. fs_readFile P filePath = Inr cont \<and>
         mapGet (indexedDocuments (indexFile1 P this filePath)) filePath = Some d \<and>
         content d = cont \<and> tokens d = \<lceil>real (length cont) / 4\<rceil>"
    if "\<not> skipped P this filePath"
  proof -
    from that obtain stats cont where rd: "fs_readFile P filePath = Inr cont"
      and eq: "indexFile1 P this filePath =
       this\<lparr>indexedDocuments := mapSet (indexedDocuments this) filePath (newDocument P filePath stats cont)\<rparr>"
      by (rule indexFile1_not_skipped)
    show ?thesis
      unfolding eq using rd
      by (simp add: mapGet_mapSet_same content_newDocument tokens_newDocument)
  qed
  from pass have kept: "\<forall>(p, d) \<in> set (indexedDocuments (service (snd (indexWorkspace P st folders)))).
       tokens d = \<lceil>real (length (content d)) / 4\<rceil>"
    if "\<forall>(p, d) \<in> set (indexedDocuments (service st)). tokens d = \<lceil>real (length (content d)) / 4\<rceil>"
    using that by blast
  from pass have entries: "\<forall>(p, d) \<in> set (indexedDocuments (service (snd (indexWorkspace P st folders)))).
       (p, d) \<in> set (indexedDocuments (service st)) \<or>
       tokens d = \<lceil>real (length (content d)) / 4\<rceil>"
    by blast
  from one have single: "\<not> skipped P this filePath \<longrightarrow>
      (\<exists>cont d. fs_readFile P filePath = Inr cont \<and>
         mapGet (indexedDocuments (indexFile1 P this filePath)) filePath = Some d \<and>
         content d = cont \<and> tokens d = \<lceil>real (length cont) / 4\<rceil>)"
    by blast
  from kept have kept': "(\<forall>(p, d) \<in> set (indexedDocuments (service st)). tokens d = \<lceil>real (length (content d)) / 4\<rceil>) \<longrightarrow>
    (\<forall>(p, d) \<in> set (indexedDocuments (service (snd (indexWorkspace P st folders)))).
       tokens d = \<lceil>real (length (content d)) / 4\<rceil>)"
    by (rule impI)
  show ?thesis using entries kept' single by (intro conjI)
qed

theorem tokenCount_recomputed_witness:
  "indexedDocuments (service (snd (indexWorkspace platform0 state0 [''/w'']))) = [(''/w/a.ts'', docIndexed)] \<and>
   (''/w/a.ts'', docIndexed) \<notin> set (indexedDocuments (service state0)) \<and>
   tokens docIndexed = \<lceil>real (length (content docIndexed)) / 4\<rceil> \<and>
   \<not> skipped platform0 (service state0) ''/w/a.ts'' \<and>
   fs_readFile platform0 ''/w/a.ts'' = Inr ''// x\<newline>// x\<newline>let a=1'' \<and>
   mapGet (indexedDocuments (indexFile1 platform0 (service state0) ''/w/a.ts'')) ''/w/a.ts'' = Some docIndexed"
proof -
  have ev: "indexedDocuments (service (snd (indexWorkspace platform0 state0 [''/w'']))) = [(''/w/a.ts'', docIndexed)]"
    by (simp add: indexWorkspace_eval state1_def)
  have old: "(''/w/a.ts'', docIndexed) \<notin> set (indexedDocuments (service state0))"
    by (simp add: state0_def)
  have ns: "\<not> skipped platform0 (service state0) ''/w/a.ts''"
    by (simp add: skipped_def state0_def platform0_def mapGet_def)
  have rd: "fs_readFile platform0 ''/w/a.ts'' = Inr ''// x\<newline>// x\<newline>let a=1''"
    by (simp add: platform0_def)
  from tokenCount_recomputed [of platform0 state0 "[''/w'']" "service state0" "''/w/a.ts''"] ev old ns rd
  have "tokens docIndexed = \<lceil>real (length (content docIndexed)) / 4\<rceil>" by simp
  moreover have "mapGet (indexedDocuments (indexFile1 platform0 (service state0) ''/w/a.ts'')) ''/w/a.ts'' = Some docIndexed"
    using newDocument_eval by (simp add: indexFile1_def platform0_def state0_def mapGet_def)
  ultimately show ?thesis using ev old ns rd by simp
qed



subsection \<open>Loading the index\<close>

lemma saveIndex_documents: "indexedDocuments (service (saveIndex P st)) = indexedDocuments (service st)"
  by (simp add: saveIndex_def writeIndex_def)

lemma loadIndex_error: "loadIndex P st = Inl e \<Longrightarrow> e = LoadError"
  by (auto simp: loadIndex_def split: sum.splits)

lemma loadIndex_fails_iff:
  "(\<exists>e. loadIndex P st = Inl e) \<longleftrightarrow>
     (\<not> index_readable P \<or> indexFile st = None \<or>
      (\<exists>data e. indexFile st = Some data \<and> JSON_parse P data = Inl e))"
  by (auto simp: loadIndex_def readIndex_def split: option.splits sum.splits if_splits)

lemma initialize_returns:
  "initialize P st =
     Inr (case fs_access st of
            Inl err \<Rightarrow> saveIndex P (st\<lparr>service := (service st)\<lparr>indexedDocuments := []\<rparr>\<rparr>)
          | Inr ok \<Rightarrow>
              (case loadIndex P st of
                 Inl e \<Rightarrow> saveIndex P (st\<lparr>service := (service st)\<lparr>indexedDocuments := []\<rparr>\<rparr>)
               | Inr st' \<Rightarrow> st'))"
  by (simp add: initialize_def split: sum.splits)

text \<open>
  Claim C9. \<open>initialize\<close> never throws: it always returns a state. When the index file is
  absent the index is empty afterwards; when the file is there and does not parse,
  \<open>loadIndex\<close> throws its load error, and \<open>initialize\<close> catches it and leaves the index empty;
  the same holds for every error of \<open>loadIndex\<close>, which is always the load error.
\<close>

theorem initialize_degrades_to_empty:
  "(\<exists>st'. initialize P st = Inr st') \<and>
   (indexFile st = None \<longrightarrow>
      (\<exists>st'. initialize P st = Inr st' \<and> indexedDocuments (service st') = [])) \<and>
   (\<forall>data e. indexFile st = Some data \<and> JSON_parse P data = Inl e \<longrightarrow>
      loadIndex P st = Inl LoadError \<and>
      (\<exists>st'. initialize P st = Inr st' \<and> indexedDocuments (service st') = [])) \<and>
   (\<forall>e. loadIndex P st = Inl e \<longrightarrow>
      e = LoadError \<and> (\<exists>st'. initialize P st = Inr st' \<and> indexedDocuments (service st') = []))"
proof -
  have never: "\<exists>st'. initialize P st = Inr st'"
    by (simp add: initialize_returns)
  have absent: "\<exists>st'. initialize P st = Inr st' \<and> indexedDocuments (service st') = []"
    if "indexFile st = None"
    using that by (simp add: initialize_returns fs_access_def saveIndex_documents)
  have failed: "e = LoadError \<and> (\<exists>st'. initialize P st = Inr st' \<and> indexedDocuments (service st') = [])"
    if "loadIndex P st = Inl e" for e
    using that loadIndex_error [OF that]
    by (simp add: initialize_returns saveIndex_documents split: sum.splits)
  have corrupt: "loadIndex P st = Inl LoadError \<and>
      (\<exists>st'. initialize P st = Inr st' \<and> indexedDocuments (service st') = [])"
    if "indexFile st = Some data" "JSON_parse P data = Inl e" for data e
  proof -
    from that have "loadIndex P st = Inl LoadError"
      by (simp add: loadIndex_def readIndex_def)
    with failed show ?thesis by simp
  qed
  have c3: "\<forall>data e. indexFile st = Some data \<and> JSON_parse P data = Inl e \<longrightarrow>
      loadIndex P st = Inl LoadError \<and>
      (\<exists>st'. initialize P st = Inr st' \<and> indexedDocuments (service st') = [])"
    using corrupt by blast
  have c4: "\<forall>e. loadIndex P st = Inl e \<longrightarrow>
      e = LoadError \<and> (\<exists>st'. initialize P st = Inr st' \<and> indexedDocuments (service st') = [])"
    using failed by blast
  have c2: "indexFile st = None \<longrightarrow>
      (\<exists>st'. initialize P st = Inr st' \<and> indexedDocuments (service st') = [])"
    using absent by blast
  show ?thesis using never c2 c3 c4 by (intro conjI)
qed

theorem initialize_degrades_to_empty_witness:
  "indexFile stateCorrupt = Some ''[['' \<and> JSON_parse platform0 ''[['' = Inl SyntaxError \<and>
   indexedDocuments (service stateCorrupt) = indexedDocuments service0 \<and>
   loadIndex platform0 stateCorrupt = Inl LoadError \<and>
   initialize platform0 stateCorrupt =
     Inr \<lparr>service = service0\<lparr>indexedDocuments := []\<rparr>, indexFile = Some []\<rparr>"
proof -
  have a: "indexFile stateCorrupt = Some ''[[''" by (simp add: stateCorrupt_def)
  have b: "JSON_parse platform0 ''[['' = Inl SyntaxError" by (simp add: platform0_def)
  have c: "indexedDocuments (service stateCorrupt) = indexedDocuments service0" by (simp add: stateCorrupt_def)
  from initialize_degrades_to_empty [of platform0 stateCorrupt] a b
  have d: "loadIndex platform0 stateCorrupt = Inl LoadError" by blast
  have e: "initialize platform0 stateCorrupt =
     Inr \<lparr>service = service0\<lparr>indexedDocuments := []\<rparr>, indexFile = Some []\<rparr>"
    using d by (simp add: initialize_returns fs_access_def stateCorrupt_def saveIndex_def writeIndex_def platform0_def)
  from a b c d e show ?thesis by simp
qed

subsection \<open>Extracted metadata\<close>

lemma distinct_foldl_seen:
  "distinct seen \<Longrightarrow> distinct (foldl (\<lambda>seen x. if x \<in> set seen then seen else seen @ [x]) seen xs)"
  by (induction xs arbitrary: seen) auto

lemma distinct_newSet: "distinct (newSet xs)"
  by (simp add: newSet_def distinct_foldl_seen)

lemma set_foldl_seen:
  "set (foldl (\<lambda>seen x. if x \<in> set seen then seen else seen @ [x]) seen xs) = set seen \<union> set xs"
  by (induction xs arbitrary: seen) auto

lemma set_newSet: "set (newSet xs) = set xs"
  by (simp add: newSet_def set_foldl_seen)

lemma distinct_extracted:
  "distinct (extractSymbols cont lang)" "distinct (extractImports cont lang)"
  "distinct (extractExports cont lang)"
  by (simp_all add: extractSymbols_def extractImports_def extractExports_def distinct_newSet)

text \<open>
  Claim C3 at the content \<open>// x\<close>, \<open>// x\<close>, \<open>let a=1\<close> (three lines): \<open>extractComments\<close>
  returns the comment \<open>x\<close> twice, and the document stored for the file keeps both. The
  lemma \<open>distinct_extracted\<close> above shows that the other three lists, which go through
  \<open>new Set\<close>, have no duplicates for any content and language.
\<close>

theorem extractComments_keeps_duplicates:
  "extractComments ''// x\<newline>// x\<newline>let a=1'' ''typescript'' = [''x'', ''x''] \<and>
   \<not> distinct (extractComments ''// x\<newline>// x\<newline>let a=1'' ''typescript'') \<and>
   comments (newDocument platform0 ''/w/a.ts'' \<lparr>size' = 18, mtime = 7\<rparr> ''// x\<newline>// x\<newline>let a=1'')
     = Some [''x'', ''x'']"
  by (simp add: comments_eval newDocument_eval docIndexed_def)

section \<open>Properties of concurrent indexing\<close>

lemma count_update:
  "i < length xs \<Longrightarrow>
     length (filter Q (xs[i := y])) + (if Q (xs ! i) then 1 else 0) =
     length (filter Q xs) + (if Q y then 1 else 0)"
proof (induction xs arbitrary: i)
  case Nil
  then show ?case by simp
next
  case (Cons x xs)
  show ?case
  proof (cases i)
    case 0
    then show ?thesis by simp
  next
    case (Suc j)
    with Cons.prems have "j < length xs" by simp
    from Cons.IH [OF this] Suc show ?thesis by simp
  qed
qed

lemma resume_flag: "isIndexing (service (snd (resume P st t))) = isIndexing (service st)"
  by (cases t) (auto simp: saveIndex_def writeIndex_def split: sum.splits)

lemma step_invariant:
  assumes "guardInvariant (st, calls)"
  shows "guardInvariant (step P i (st, calls))"
proof (cases "i < length calls")
  case False
  with assms show ?thesis by (simp add: step_def)
next
  case True
  note upd = count_update [OF True, of inFlight]
  show ?thesis
  proof (cases "calls ! i")
    case (Pending folders)
    with assms True upd [of "Returned None"] upd [of "Running (nextFolder folders)"]
    show ?thesis by (auto simp: step_def guardInvariant_def)
  next
    case (Running t)
    obtain r st' where res: "resume P st t = (r, st')" by (cases "resume P st t")
    with resume_flag [of P st t] have flag: "isIndexing (service st') = isIndexing (service st)" by simp
    show ?thesis
    proof (cases r)
      case (Inl t')
      with assms True Running res flag upd [of "Running t'"]
      show ?thesis by (auto simp: step_def guardInvariant_def)
    next
      case (Inr outcome)
      with assms True Running res flag upd [of "Returned outcome"]
      show ?thesis by (auto simp: step_def guardInvariant_def split: if_splits)
    qed
  next
    case (Returned outcome)
    with assms True show ?thesis by (simp add: step_def)
  qed
qed

lemma run_invariant:
  "guardInvariant cfg \<Longrightarrow> guardInvariant (run P schedule cfg)"
  unfolding run_def
proof (induction schedule arbitrary: cfg)
  case Nil
  then show ?case by simp
next
  case (Cons i schedule)
  from Cons.prems have "guardInvariant (step P i cfg)"
    using step_invariant [of "fst cfg" "snd cfg" P i] by simp
  from Cons.IH [OF this] show ?case by simp
qed


lemma step_guarded_call:
  assumes "isIndexing (service st)" "i < length calls" "calls ! i = Pending workspaceFolders"
  shows "step P i (st, calls) = (st, calls[i := Returned None])"
  using assms by (simp add: step_def)

lemma step_finished_call:
  assumes "i < length calls" "calls ! i = Running t" "snd (step P i (st, calls)) ! i = Returned outcome"
  shows "\<not> isIndexing (service (fst (step P i (st, calls))))"
proof -
  obtain r st' where res: "resume P st t = (r, st')" by (cases "resume P st t")
  show ?thesis
  proof (cases r)
    case (Inl t')
    with assms res show ?thesis by (simp add: step_def)
  next
    case (Inr outcome')
    with assms res show ?thesis by (simp add: step_def)
  qed
qed

lemma indexWorkspace_guarded:
  "isIndexing (service st) \<Longrightarrow> indexWorkspace P st workspaceFolders = (None, st)"
  by (simp add: indexWorkspace_def)

lemma indexWorkspace_clears_guard:
  "\<not> isIndexing (service st) \<Longrightarrow> \<not> isIndexing (service (snd (indexWorkspace P st workspaceFolders)))"
  by (cases "globOutcome P workspaceFolders")
    (simp_all add: indexWorkspace_def indexFolders_flat saveIndex_def writeIndex_def Let_def)

text \<open>
  Claim C7. Start with the guard clear and no call in flight, and let any number of calls
  run in any interleaving of their steps. Then at every moment at most one call is in
  flight, and the guard is set exactly while one is. A call that finds the guard set
  returns at once, resolved, and leaves the whole state as it was; the sequential
  \<open>indexWorkspace\<close> does the same. The step in which a call in flight returns, resolved or
  rejected, leaves the guard clear, and so does every complete pass.
\<close>

theorem indexing_never_interleaved:
  assumes "\<not> isIndexing (service st)" and "filter inFlight calls = []"
  shows "length (filter inFlight (snd (run P schedule (st, calls)))) \<le> 1 \<and>
         (isIndexing (service (fst (run P schedule (st, calls)))) \<longleftrightarrow>
            (\<exists>c \<in> set (snd (run P schedule (st, calls))). inFlight c)) \<and>
         (\<forall>st' calls' i workspaceFolders.
            isIndexing (service st') \<and> i < length calls' \<and> calls' ! i = Pending workspaceFolders \<longrightarrow>
              step P i (st', calls') = (st', calls'[i := Returned None]) \<and>
              indexWorkspace P st' workspaceFolders = (None, st')) \<and>
         (\<forall>st' calls' i t outcome.
            i < length calls' \<and> calls' ! i = Running t \<and>
            snd (step P i (st', calls')) ! i = Returned outcome \<longrightarrow>
              \<not> isIndexing (service (fst (step P i (st', calls'))))) \<and>
         \<not> isIndexing (service (snd (indexWorkspace P st workspaceFolders0)))"
proof -
  from assms have "guardInvariant (st, calls)" by (simp add: guardInvariant_def)
  then have inv: "guardInvariant (run P schedule (st, calls))" by (rule run_invariant)
  then have one: "length (filter inFlight (snd (run P schedule (st, calls)))) \<le> 1"
    by (simp add: guardInvariant_def)
  have "(\<exists>c \<in> set (snd (run P schedule (st, calls))). inFlight c) \<longleftrightarrow>
      filter inFlight (snd (run P schedule (st, calls))) \<noteq> []"
    by (simp add: filter_empty_conv)
  also have "\<dots> \<longleftrightarrow> isIndexing (service (fst (run P schedule (st, calls))))"
    using inv by (cases "isIndexing (service (fst (run P schedule (st, calls))))")
      (auto simp: guardInvariant_def)
  finally have flag: "isIndexing (service (fst (run P schedule (st, calls)))) \<longleftrightarrow>
      (\<exists>c \<in> set (snd (run P schedule (st, calls))). inFlight c)" by simp
  have noop: "\<forall>st' calls' i workspaceFolders.
      isIndexing (service st') \<and> i < length calls' \<and> calls' ! i = Pending workspaceFolders \<longrightarrow>
        step P i (st', calls') = (st', calls'[i := Returned None]) \<and>
        indexWorkspace P st' workspaceFolders = (None, st')"
    by (simp add: step_guarded_call indexWorkspace_guarded)
  have cleared: "\<forall>st' calls' i t outcome.
      i < length calls' \<and> calls' ! i = Running t \<and>
      snd (step P i (st', calls')) ! i = Returned outcome \<longrightarrow>
        \<not> isIndexing (service (fst (step P i (st', calls'))))"
  proof (intro allI impI)
    fix st' calls' i t outcome
    assume "i < length calls' \<and> calls' ! i = Running t \<and>
      snd (step P i (st', calls')) ! i = Returned outcome"
    then show "\<not> isIndexing (service (fst (step P i (st', calls'))))"
      using step_finished_call [of i calls' t P st' outcome] by simp
  qed
  note last = indexWorkspace_clears_guard [OF assms(1), of P workspaceFolders0]
  show ?thesis
    using one flag noop cleared last by (intro conjI)
qed

lemma run_eval:
  "run platform0 [0, 1] (state0, [Pending [''/w''], Pending [''/w'']]) =
     (state0\<lparr>service := (service state0)\<lparr>isIndexing := True\<rparr>\<rparr>, [Running (AwaitGlob ''/w'' []), Returned None])"
  "run platform0 [0, 1, 0, 0, 0, 0, 0, 0] (state0, [Pending [''/w''], Pending [''/w'']]) =
     (state1, [Returned None, Returned None])"
proof -
  show "run platform0 [0, 1] (state0, [Pending [''/w''], Pending [''/w'']]) =
     (state0\<lparr>service := (service state0)\<lparr>isIndexing := True\<rparr>\<rparr>, [Running (AwaitGlob ''/w'' []), Returned None])"
    by (simp add: run_def step_def state0_def)
  have g: "glob platform0 ''/w'' = Inr [''a.ts'', ''big.bin'', ''gone.py'']"
    "path_join platform0 ''/w'' f = ''/w/'' @ f" for f
    by (simp_all add: platform0_def)
  have s: "fs_stat platform0 ''/w/a.ts'' = Inr \<lparr>size' = 18, mtime = 7\<rparr>"
    "fs_stat platform0 ''/w/big.bin'' = Inr \<lparr>size' = 2000000, mtime = 7\<rparr>"
    "fs_stat platform0 ''/w/gone.py'' = Inl FsError"
    "fs_readFile platform0 ''/w/a.ts'' = Inr ''// x\<newline>// x\<newline>let a=1''"
    "index_writable platform0" "JSON_stringify platform0 m = concat (map fst m)" for m
    by (simp_all add: platform0_def)
  show "run platform0 [0, 1, 0, 0, 0, 0, 0, 0] (state0, [Pending [''/w''], Pending [''/w'']]) =
     (state1, [Returned None, Returned None])"
    by (simp add: run_def step_def state0_def state1_def g s mapGet_def newDocument_eval saveIndex_def writeIndex_def)
qed

theorem indexing_never_interleaved_witness:
  "\<not> isIndexing (service state0) \<and>
   filter inFlight [Pending [''/w''], Pending [''/w'']] = [] \<and>
   run platform0 [0, 1] (state0, [Pending [''/w''], Pending [''/w'']]) =
     (state0\<lparr>service := (service state0)\<lparr>isIndexing := True\<rparr>\<rparr>, [Running (AwaitGlob ''/w'' []), Returned None]) \<and>
   length (filter inFlight (snd (run platform0 [0, 1] (state0, [Pending [''/w''], Pending [''/w'']])))) \<le> 1 \<and>
   isIndexing (service (fst (run platform0 [0, 1] (state0, [Pending [''/w''], Pending [''/w'']])))) \<and>
   run platform0 [0, 1, 0, 0, 0, 0, 0, 0] (state0, [Pending [''/w''], Pending [''/w'']]) =
     (state1, [Returned None, Returned None])"
proof -
  have a: "\<not> isIndexing (service state0)" by (simp add: state0_def)
  have b: "filter inFlight [Pending [''/w''], Pending [''/w'']] = []" by simp
  from indexing_never_interleaved [OF a b, of platform0 "[0, 1]"] a b run_eval
  show ?thesis by simp
qed

subsection \<open>A call that runs alone\<close>

text \<open>
  The steps of one call, with no other call between them, end after finitely many steps
  in the state and with the outcome of the sequential \<open>indexWorkspace\<close>: the two models of
  the pass agree.
\<close>

lemma run_append: "run P (xs @ ys) cfg = run P ys (run P xs cfg)"
  by (simp add: run_def)

lemma run_replicate_add:
  "run P (replicate (a + b) i) cfg = run P (replicate b i) (run P (replicate a i) cfg)"
  by (simp add: replicate_add run_append)

lemma run_one: "run P (replicate 1 i) cfg = step P i cfg"
  by (simp add: run_def)

lemma nextFile_controller:
  "kodelyIgnoreController a = kodelyIgnoreController b \<Longrightarrow> nextFile a files rest = nextFile b files rest"
  by (induction files) auto

lemma step_running:
  "step P 0 (st, [Running t]) =
     (case resume P st t of
        (Inl t', st') \<Rightarrow> (st', [Running t'])
      | (Inr outcome, st') \<Rightarrow> (st'\<lparr>service := (service st')\<lparr>isIndexing := False\<rparr>\<rparr>, [Returned outcome]))"
  by (simp add: step_def split: prod.splits sum.splits)

lemma files_alone:
  "\<exists>n. run P (replicate n 0) (st, [Running (nextFile (service st) files rest)]) =
     (st\<lparr>service := foldl (indexFile1 P) (service st) files\<rparr>, [Running (nextFolder rest)])"
proof (induction files arbitrary: st)
  case Nil
  have "run P (replicate 0 0) (st, [Running (nextFile (service st) [] rest)]) =
      (st\<lparr>service := foldl (indexFile1 P) (service st) []\<rparr>, [Running (nextFolder rest)])"
    by (simp add: run_def)
  then show ?case by blast
next
  case (Cons f files)
  show ?case
  proof (cases "skipped P (service st) f")
    case True
    then have same: "indexFile1 P (service st) f = service st" by (rule indexFile1_skipped)
    from Cons.IH [of st] obtain n where
      n: "run P (replicate n 0) (st, [Running (nextFile (service st) files rest)]) =
        (st\<lparr>service := foldl (indexFile1 P) (service st) files\<rparr>, [Running (nextFolder rest)])" by blast
    show ?thesis
    proof (cases "case kodelyIgnoreController (service st) of None \<Rightarrow> False | Some validateAccess \<Rightarrow> \<not> validateAccess f")
      case True
      with n same show ?thesis by auto
    next
      case denied: False
      have first: "step P 0 (st, [Running (AwaitStat f files rest)]) =
          (st, [Running (nextFile (service st) files rest)]) \<or>
        (\<exists>stats. step P 0 (st, [Running (AwaitStat f files rest)]) = (st, [Running (AwaitRead f stats files rest)]) \<and>
           step P 0 (st, [Running (AwaitRead f stats files rest)]) = (st, [Running (nextFile (service st) files rest)]))"
        using True denied
        by (auto simp: step_running skipped_def split: sum.splits option.splits)
      then show ?thesis
      proof
        assume one: "step P 0 (st, [Running (AwaitStat f files rest)]) =
          (st, [Running (nextFile (service st) files rest)])"
        have "run P (replicate (1 + n) 0) (st, [Running (nextFile (service st) (f # files) rest)]) =
          (st\<lparr>service := foldl (indexFile1 P) (service st) (f # files)\<rparr>, [Running (nextFolder rest)])"
          unfolding run_replicate_add run_one using denied one n same by simp
        then show ?thesis by blast
      next
        assume "\<exists>stats. step P 0 (st, [Running (AwaitStat f files rest)]) = (st, [Running (AwaitRead f stats files rest)]) \<and>
           step P 0 (st, [Running (AwaitRead f stats files rest)]) = (st, [Running (nextFile (service st) files rest)])"
        then obtain stats where
          one: "step P 0 (st, [Running (AwaitStat f files rest)]) = (st, [Running (AwaitRead f stats files rest)])"
          and two: "step P 0 (st, [Running (AwaitRead f stats files rest)]) = (st, [Running (nextFile (service st) files rest)])"
          by blast
        have "run P (replicate (1 + (1 + n)) 0) (st, [Running (nextFile (service st) (f # files) rest)]) =
          (st\<lparr>service := foldl (indexFile1 P) (service st) (f # files)\<rparr>, [Running (nextFolder rest)])"
          unfolding run_replicate_add run_one using denied one two n same by simp
        then show ?thesis by blast
      qed
    qed
  next
    case False
    then obtain stats cont where st: "fs_stat P f = Inr stats" and rd: "fs_readFile P f = Inr cont"
      and eq: "indexFile1 P (service st) f =
        (service st)\<lparr>indexedDocuments := mapSet (indexedDocuments (service st)) f (newDocument P f stats cont)\<rparr>"
      by (rule indexFile1_not_skipped)
    define st' where "st' = st\<lparr>service := indexFile1 P (service st) f\<rparr>"
    from False have denied: "\<not> (case kodelyIgnoreController (service st) of None \<Rightarrow> False | Some validateAccess \<Rightarrow> \<not> validateAccess f)"
      by (simp add: skipped_def)
    have one: "step P 0 (st, [Running (AwaitStat f files rest)]) = (st, [Running (AwaitRead f stats files rest)])"
      using False st by (auto simp: step_running skipped_def split: option.splits)
    have two: "step P 0 (st, [Running (AwaitRead f stats files rest)]) =
        (st', [Running (nextFile (service st') files rest)])"
    proof -
      have "nextFile (service st) files rest = nextFile (service st') files rest"
        by (rule nextFile_controller) (simp add: st'_def indexFile1_frame)
      then show ?thesis
        using rd by (simp add: step_running st'_def eq)
    qed
    from Cons.IH [of st'] obtain n where
      n: "run P (replicate n 0) (st', [Running (nextFile (service st') files rest)]) =
        (st'\<lparr>service := foldl (indexFile1 P) (service st') files\<rparr>, [Running (nextFolder rest)])" by blast
    have "run P (replicate (1 + (1 + n)) 0) (st, [Running (nextFile (service st) (f # files) rest)]) =
        (st\<lparr>service := foldl (indexFile1 P) (service st) (f # files)\<rparr>, [Running (nextFolder rest)])"
      unfolding run_replicate_add run_one using denied one two n by (simp add: st'_def)
    then show ?thesis by blast
  qed
qed

lemma folders_alone:
  "\<exists>n. run P (replicate n 0) (st, [Running (nextFolder folders)]) =
     (case indexFolders P (service st) folders of
        (Some e, this) \<Rightarrow> (st\<lparr>service := this\<lparr>isIndexing := False\<rparr>\<rparr>, [Returned (Some e)])
      | (None, this) \<Rightarrow>
          (let st' = saveIndex P (st\<lparr>service := this\<rparr>)
           in (st'\<lparr>service := (service st')\<lparr>isIndexing := False\<rparr>\<rparr>, [Returned None])))"
proof (induction folders arbitrary: st)
  case Nil
  have "run P (replicate 1 0) (st, [Running (nextFolder [])]) =
     (case indexFolders P (service st) [] of
        (Some e, this) \<Rightarrow> (st\<lparr>service := this\<lparr>isIndexing := False\<rparr>\<rparr>, [Returned (Some e)])
      | (None, this) \<Rightarrow>
          (let st' = saveIndex P (st\<lparr>service := this\<rparr>)
           in (st'\<lparr>service := (service st')\<lparr>isIndexing := False\<rparr>\<rparr>, [Returned None])))"
    unfolding run_one by (simp add: step_running Let_def)
  then show ?case by blast
next
  case (Cons d rest)
  show ?case
  proof (cases "glob P d")
    case (Inl e)
    then have "run P (replicate 1 0) (st, [Running (nextFolder (d # rest))]) =
     (case indexFolders P (service st) (d # rest) of
        (Some e, this) \<Rightarrow> (st\<lparr>service := this\<lparr>isIndexing := False\<rparr>\<rparr>, [Returned (Some e)])
      | (None, this) \<Rightarrow>
          (let st' = saveIndex P (st\<lparr>service := this\<rparr>)
           in (st'\<lparr>service := (service st')\<lparr>isIndexing := False\<rparr>\<rparr>, [Returned None])))"
      unfolding run_one by (simp add: step_running)
    then show ?thesis by blast
  next
    case (Inr files)
    define fps where "fps = map (path_join P d) files"
    define st' where "st' = st\<lparr>service := foldl (indexFile1 P) (service st) fps\<rparr>"
    have one: "step P 0 (st, [Running (nextFolder (d # rest))]) =
        (st, [Running (nextFile (service st) fps rest)])"
      using Inr by (simp add: step_running fps_def)
    from files_alone [of P st fps rest] obtain a where
      a: "run P (replicate a 0) (st, [Running (nextFile (service st) fps rest)]) =
        (st', [Running (nextFolder rest)])" by (auto simp: st'_def)
    from Cons.IH [of st'] obtain b where
      b: "run P (replicate b 0) (st', [Running (nextFolder rest)]) =
        (case indexFolders P (service st') rest of
          (Some e, this) \<Rightarrow> (st'\<lparr>service := this\<lparr>isIndexing := False\<rparr>\<rparr>, [Returned (Some e)])
        | (None, this) \<Rightarrow>
            (let st'' = saveIndex P (st'\<lparr>service := this\<rparr>)
             in (st''\<lparr>service := (service st'')\<lparr>isIndexing := False\<rparr>\<rparr>, [Returned None])))" by blast
    have "run P (replicate (1 + (a + b)) 0) (st, [Running (nextFolder (d # rest))]) =
     (case indexFolders P (service st) (d # rest) of
        (Some e, this) \<Rightarrow> (st\<lparr>service := this\<lparr>isIndexing := False\<rparr>\<rparr>, [Returned (Some e)])
      | (None, this) \<Rightarrow>
          (let st' = saveIndex P (st\<lparr>service := this\<rparr>)
           in (st'\<lparr>service := (service st')\<lparr>isIndexing := False\<rparr>\<rparr>, [Returned None])))"
      unfolding run_replicate_add run_one one a b
      using Inr by (auto simp: st'_def fps_def Let_def split: prod.splits option.splits)
    then show ?thesis by blast
  qed
qed

lemma call_alone:
  "\<exists>n. run P (replicate n 0) (st, [Pending workspaceFolders]) =
     (snd (indexWorkspace P st workspaceFolders), [Returned (fst (indexWorkspace P st workspaceFolders))])"
proof (cases "isIndexing (service st)")
  case True
  then have "run P (replicate 1 0) (st, [Pending workspaceFolders]) =
     (snd (indexWorkspace P st workspaceFolders), [Returned (fst (indexWorkspace P st workspaceFolders))])"
    unfolding run_one by (simp add: step_def indexWorkspace_def)
  then show ?thesis by blast
next
  case False
  define st1 where "st1 = st\<lparr>service := (service st)\<lparr>isIndexing := True\<rparr>\<rparr>"
  from False have one: "step P 0 (st, [Pending workspaceFolders]) = (st1, [Running (nextFolder workspaceFolders)])"
    by (simp add: step_def st1_def)
  from folders_alone [of P st1 workspaceFolders] obtain n where
    n: "run P (replicate n 0) (st1, [Running (nextFolder workspaceFolders)]) =
     (case indexFolders P (service st1) workspaceFolders of
        (Some e, this) \<Rightarrow> (st1\<lparr>service := this\<lparr>isIndexing := False\<rparr>\<rparr>, [Returned (Some e)])
      | (None, this) \<Rightarrow>
          (let st' = saveIndex P (st1\<lparr>service := this\<rparr>)
           in (st'\<lparr>service := (service st')\<lparr>isIndexing := False\<rparr>\<rparr>, [Returned None])))" by blast
  have "run P (replicate (1 + n) 0) (st, [Pending workspaceFolders]) =
     (snd (indexWorkspace P st workspaceFolders), [Returned (fst (indexWorkspace P st workspaceFolders))])"
    unfolding run_replicate_add run_one one n
    using False by (auto simp: indexWorkspace_def st1_def Let_def split: prod.splits option.splits)
  then show ?thesis by blast
qed

end
